theory Spec2Isabelle
  imports Complex_Main
begin

section \<open>Numbers and cards\<close>

text \<open>
  The bot of \<^verbatim>\<open>bot.js\<close> computes with JavaScript numbers. The inputs of a decision
  (stacks, pot, blinds, bets) are taken as finite numbers and modelled as reals, so
  rounding errors of the binary representation are not part of this model. The two
  quotients of the decision engine whose divisor can be zero (\<^verbatim>\<open>potOdds\<close>,
  \<^verbatim>\<open>stackRatio\<close>) and the preflop score of two unknown ranks can be infinite or
  not a number; they are values of \<open>jsnum\<close>, and every operation applied to them in
  the source is written out with its JavaScript meaning.
\<close>

datatype jsnum = Num real | PosInf | NegInf | NaN

text \<open>\<^verbatim>\<open>x / y\<close> on finite numbers. A zero divisor is the positive zero: the
  divisors of the source are a stack and a sum of a pot and a difference of bets, and
  neither is the negative zero for inputs that are reals.\<close>

definition js_div :: "real \<Rightarrow> real \<Rightarrow> jsnum" where
  "js_div x y =
     (if y \<noteq> 0 then Num (x / y)
      else if x > 0 then PosInf
      else if x < 0 then NegInf
      else NaN)"

text \<open>\<^verbatim>\<open>a * c\<close> for a finite \<open>c\<close>; the quotient \<^verbatim>\<open>a / c\<close> by a finite
  \<open>c \<noteq> 0\<close> is the product with \<open>1 / c\<close>.\<close>

fun js_scale :: "jsnum \<Rightarrow> real \<Rightarrow> jsnum" where
  "js_scale (Num x) c = Num (x * c)"
| "js_scale PosInf c = (if c > 0 then PosInf else if c < 0 then NegInf else NaN)"
| "js_scale NegInf c = (if c > 0 then NegInf else if c < 0 then PosInf else NaN)"
| "js_scale NaN c = NaN"

text \<open>\<^verbatim>\<open>a - b\<close>.\<close>

fun js_sub :: "jsnum \<Rightarrow> jsnum \<Rightarrow> jsnum" where
  "js_sub NaN b = NaN"
| "js_sub a NaN = NaN"
| "js_sub (Num x) (Num y) = Num (x - y)"
| "js_sub (Num x) PosInf = NegInf"
| "js_sub (Num x) NegInf = PosInf"
| "js_sub PosInf PosInf = NaN"
| "js_sub PosInf b = PosInf"
| "js_sub NegInf NegInf = NaN"
| "js_sub NegInf b = NegInf"

text \<open>\<^verbatim>\<open>Math.abs(a)\<close>.\<close>

fun js_abs :: "jsnum \<Rightarrow> jsnum" where
  "js_abs (Num x) = Num \<bar>x\<bar>"
| "js_abs PosInf = PosInf"
| "js_abs NegInf = PosInf"
| "js_abs NaN = NaN"

text \<open>\<^verbatim>\<open>a <= b\<close>; a comparison with \<^verbatim>\<open>NaN\<close> is false.\<close>

fun js_le :: "jsnum \<Rightarrow> jsnum \<Rightarrow> bool" where
  "js_le NaN b = False"
| "js_le a NaN = False"
| "js_le (Num x) (Num y) = (x \<le> y)"
| "js_le NegInf b = True"
| "js_le a PosInf = True"
| "js_le PosInf b = False"
| "js_le a NegInf = False"

text \<open>\<^verbatim>\<open>a < b\<close>.\<close>

fun js_lt :: "jsnum \<Rightarrow> jsnum \<Rightarrow> bool" where
  "js_lt NaN b = False"
| "js_lt a NaN = False"
| "js_lt (Num x) (Num y) = (x < y)"
| "js_lt PosInf b = False"
| "js_lt a NegInf = False"
| "js_lt NegInf b = True"
| "js_lt a PosInf = True"

text \<open>\<^verbatim>\<open>a >= b\<close> and \<^verbatim>\<open>a > b\<close>.\<close>

definition js_ge :: "jsnum \<Rightarrow> jsnum \<Rightarrow> bool" where
  "js_ge a b = js_le b a"

definition js_gt :: "jsnum \<Rightarrow> jsnum \<Rightarrow> bool" where
  "js_gt a b = js_lt b a"

text \<open>
  A card is the two-character code of the source (\<^verbatim>\<open>"AH"\<close>, \<^verbatim>\<open>"TC"\<close>):
  \<^verbatim>\<open>code[0]\<close> is the rank character and \<^verbatim>\<open>code[1]\<close> the suit character.
\<close>

type_synonym card = "char \<times> char"

text \<open>\<^verbatim>\<open>Array.prototype.indexOf\<close> and \<^verbatim>\<open>String.prototype.indexOf\<close> of one
  character: the first position, or \<open>-1\<close>.\<close>

fun indexOf :: "'a list \<Rightarrow> 'a \<Rightarrow> int" where
  "indexOf [] x = - 1"
| "indexOf (y # ys) x =
     (if y = x then 0
      else (let i = indexOf ys x in if i < 0 then - 1 else i + 1))"

text \<open>\<^verbatim>\<open>Math.round\<close> rounds to the nearest integer, halves towards \<open>+\<infinity>\<close>.\<close>

definition Math_round :: "real \<Rightarrow> real" where
  "Math_round x = of_int \<lfloor>x + 1 / 2\<rfloor>"

definition roundTo10 :: "real \<Rightarrow> real" where
  "roundTo10 x = Math_round (x / 10) * 10"

section \<open>Preflop hand evaluation\<close>

definition order :: string where
  "order = ''23456789TJQKA''"

text \<open>The table \<^verbatim>\<open>base\<close>; a character that is no key gives \<^verbatim>\<open>undefined\<close>.\<close>

definition base :: "char \<Rightarrow> real option" where
  "base r =
     (if r = CHR ''A'' then Some 10
      else if r = CHR ''K'' then Some 8
      else if r = CHR ''Q'' then Some 7
      else if r = CHR ''J'' then Some 6
      else if r = CHR ''T'' then Some 5
      else if r = CHR ''9'' then Some 4.5
      else if r = CHR ''8'' then Some 4
      else if r = CHR ''7'' then Some 3.5
      else if r = CHR ''6'' then Some 3
      else if r = CHR ''5'' then Some 2.5
      else if r = CHR ''4'' then Some 2
      else if r = CHR ''3'' then Some 1.5
      else if r = CHR ''2'' then Some 1
      else None)"

text \<open>
  The body of \<^verbatim>\<open>preflopHandScore\<close> after the two cards have been put in order
  (\<open>r1\<close>, \<open>s1\<close>, \<open>i1\<close> belong to the card with the larger index in \<^verbatim>\<open>order\<close>).
  When \<^verbatim>\<open>base[r1]\<close> is \<^verbatim>\<open>undefined\<close> every later update keeps the score
  \<^verbatim>\<open>undefined\<close> or \<^verbatim>\<open>NaN\<close>, the test \<^verbatim>\<open>score < 0\<close> is false and
  \<^verbatim>\<open>Math.min(10, score)\<close> is \<^verbatim>\<open>NaN\<close>.
\<close>

definition scoreOrdered :: "char \<Rightarrow> char \<Rightarrow> int \<Rightarrow> char \<Rightarrow> char \<Rightarrow> int \<Rightarrow> jsnum" where
  "scoreOrdered r1 s1 i1 r2 s2 i2 =
     (case base r1 of
        None \<Rightarrow> NaN
      | Some b \<Rightarrow>
          (let score = b;
               score = (if r1 = r2 then (if score * 2 < 5 then 5 else score * 2) else score);
               score = (if s1 = s2 then score + 2 else score);
               gap = i1 - i2 - 1;
               score = (if gap = 1 then score - 1
                        else if gap = 2 then score - 2
                        else if gap = 3 then score - 4
                        else if gap \<ge> 4 then score - 5
                        else score);
               score = (if gap \<le> 1 \<and> i1 < indexOf order (CHR ''Q'') then score + 1 else score);
               score = (if score < 0 then 0 else score)
           in Num (min 10 score)))"

definition preflopHandScore :: "card \<Rightarrow> card \<Rightarrow> jsnum" where
  "preflopHandScore cardA cardB =
     (let r1 = fst cardA; r2 = fst cardB;
          s1 = snd cardA; s2 = snd cardB;
          i1 = indexOf order r1; i2 = indexOf order r2
      in if i1 < i2 then scoreOrdered r2 s2 i2 r1 s1 i1
         else scoreOrdered r1 s1 i1 r2 s2 i2)"

section \<open>Board evaluation\<close>

text \<open>
  Counting into an object, as in \<^verbatim>\<open>suits[suit] = (suits[suit] || 0) + 1\<close>: the
  object is an association list with one entry for each key, \<^verbatim>\<open>Object.values\<close> its
  second components. (JavaScript lists keys that look like integers first; the source
  takes only the maximum of the values and tests whether some value has a property, and
  neither depends on the order.)
\<close>

fun bump :: "'k \<Rightarrow> ('k \<times> nat) list \<Rightarrow> ('k \<times> nat) list" where
  "bump k [] = [(k, 1)]"
| "bump k ((k', c) # m) = (if k = k' then (k', c + 1) # m else (k', c) # bump k m)"

definition countKeys :: "'k list \<Rightarrow> ('k \<times> nat) list" where
  "countKeys ks = foldl (\<lambda>m k. bump k m) [] ks"

definition Object_values :: "('k \<times> nat) list \<Rightarrow> nat list" where
  "Object_values m = map snd m"

text \<open>\<^verbatim>\<open>Math.max(...xs)\<close> of counts; it is only applied to the counts of a board of at
  least three cards, which are not empty (for no argument JavaScript gives \<open>-\<infinity>\<close>).\<close>

fun Math_max_list :: "nat list \<Rightarrow> nat" where
  "Math_max_list [] = 0"
| "Math_max_list (x # xs) = max x (Math_max_list xs)"

text \<open>The table \<^verbatim>\<open>rankMap\<close> of \<^verbatim>\<open>evaluateBoardTexture\<close>.\<close>

definition rankMap :: "char \<Rightarrow> nat option" where
  "rankMap r =
     (if r = CHR ''2'' then Some 2
      else if r = CHR ''3'' then Some 3
      else if r = CHR ''4'' then Some 4
      else if r = CHR ''5'' then Some 5
      else if r = CHR ''6'' then Some 6
      else if r = CHR ''7'' then Some 7
      else if r = CHR ''8'' then Some 8
      else if r = CHR ''9'' then Some 9
      else if r = CHR ''T'' then Some 10
      else if r = CHR ''J'' then Some 11
      else if r = CHR ''Q'' then Some 12
      else if r = CHR ''K'' then Some 13
      else if r = CHR ''A'' then Some 14
      else None)"

text \<open>
  The keys of \<^verbatim>\<open>suitMap\<close> are the four suit symbols U+2663, U+2666, U+2665 and
  U+2660. None of them is a \<open>char\<close> of this model (card codes carry the letters C, D, H
  and S), so the lookup finds nothing and \<^verbatim>\<open>suitMap[s] || s\<close> is \<open>s\<close>.
\<close>

definition suitMap :: "char \<Rightarrow> char option" where
  "suitMap s = None"

definition normSuit :: "char \<Rightarrow> char" where
  "normSuit s = (case suitMap s of Some t \<Rightarrow> t | None \<Rightarrow> s)"

text \<open>The defined entries of an array that may hold \<^verbatim>\<open>undefined\<close>.\<close>

primrec defined :: "'a option list \<Rightarrow> 'a list" where
  "defined [] = []"
| "defined (x # xs) = (case x of None \<Rightarrow> defined xs | Some v \<Rightarrow> v # defined xs)"

text \<open>
  \<^verbatim>\<open>[...new Set(xs)].sort((a, b) => a - b)\<close>: the distinct numbers in ascending
  order; \<^verbatim>\<open>sort\<close> moves \<^verbatim>\<open>undefined\<close>, which the set holds at most once, to the
  end without calling the comparison.
\<close>

definition uniqueSorted :: "nat option list \<Rightarrow> nat option list" where
  "uniqueSorted xs =
     map Some (sort (remdups (defined xs))) @ (if None \<in> set xs then [None] else [])"

text \<open>\<^verbatim>\<open>unique[i] === unique[i - 1] + 1\<close>; \<^verbatim>\<open>undefined + 1\<close> is \<^verbatim>\<open>NaN\<close>.\<close>

fun isNext :: "nat option \<Rightarrow> nat option \<Rightarrow> bool" where
  "isNext (Some a) (Some b) = (b = a + 1)"
| "isNext _ _ = False"

text \<open>The loop over \<open>i = 1, \<dots>, unique.length - 1\<close>; \<open>prev\<close> is \<^verbatim>\<open>unique[i - 1]\<close>.\<close>

fun runLoop :: "nat option \<Rightarrow> nat \<Rightarrow> nat \<Rightarrow> nat option list \<Rightarrow> nat" where
  "runLoop prev currentRun maxConsecutive [] = maxConsecutive"
| "runLoop prev currentRun maxConsecutive (u # us) =
     (let currentRun' = (if isNext prev u then currentRun + 1 else 1);
          maxConsecutive' = (if currentRun' > maxConsecutive then currentRun' else maxConsecutive)
      in runLoop u currentRun' maxConsecutive' us)"

definition maxConsecutiveOf :: "nat option list \<Rightarrow> nat" where
  "maxConsecutiveOf unique = (case unique of [] \<Rightarrow> 1 | u # us \<Rightarrow> runLoop u 1 1 us)"

definition pairRisk :: "card list \<Rightarrow> real" where
  "pairRisk board =
     (let maxRankCount = Math_max_list (Object_values (countKeys (map fst board)))
      in if maxRankCount > 1
         then (real maxRankCount - 1) / (real (length board) - 1) else 0)"

definition suitRisk :: "card list \<Rightarrow> real" where
  "suitRisk board =
     (let maxSuitCount = Math_max_list (Object_values (countKeys (map (normSuit \<circ> snd) board)))
      in (real maxSuitCount - 1) / (real (length board) - 1))"

definition connectedness :: "card list \<Rightarrow> real" where
  "connectedness board =
     (let ranks = map (rankMap \<circ> fst) board;
          ranksForStraight = (if Some 14 \<in> set ranks then ranks @ [Some 1] else ranks);
          unique = uniqueSorted ranksForStraight;
          maxConsecutive = maxConsecutiveOf unique
      in if maxConsecutive \<ge> 3
         then max 0 ((real maxConsecutive - 2) / (real (length board) - 2)) else 0)"

definition evaluateBoardTexture :: "card list \<Rightarrow> real" where
  "evaluateBoardTexture board =
     (if length board < 3 then 0
      else (let textureRisk = (connectedness board + suitRisk board + pairRisk board) / 3
            in max 0 (min 1 textureRisk)))"

section \<open>The external hand evaluator\<close>

text \<open>
  \<^verbatim>\<open>Card\<close> and \<^verbatim>\<open>Hand\<close> are imported from \<^verbatim>\<open>./pokersolver.js\<close>, which is not
  part of the sources at hand. The bot reads three things of a solved hand: its ordinal
  \<^verbatim>\<open>rank\<close>, its category \<^verbatim>\<open>name\<close> and the rank of its first card
  (\<^verbatim>\<open>hand.cards[0].rank\<close>). The evaluator is a parameter of every function that
  calls it.
\<close>

record hand =
  rank :: nat
  name :: string
  firstCardRank :: int

record solver =
  Card_rank :: "card \<Rightarrow> int"
  Hand_solve :: "card list \<Rightarrow> hand"

text \<open>
  Modelled from the spec: the rank of a card as the external evaluator reports it
  (\<^verbatim>\<open>new Card(code).rank\<close> of \<^verbatim>\<open>./pokersolver.js\<close>, not under the sources). The
  spec numbers the ranks 2 to 9, T, J, Q, K, A with the ace high at 14, the numbering
  that the test \<^verbatim>\<open>ranks.includes(14)\<close> of the source relies on. It is used for
  concrete inputs only.
\<close>

definition specRank :: "card \<Rightarrow> int" where
  "specRank c = (case rankMap (fst c) of Some n \<Rightarrow> int n | None \<Rightarrow> - 1)"

section \<open>Hand context and draws\<close>

definition isPocketPair :: "solver \<Rightarrow> card \<times> card \<Rightarrow> bool" where
  "isPocketPair S hole = (Card_rank S (fst hole) = Card_rank S (snd hole))"

text \<open>\<^verbatim>\<open>Math.max(...xs)\<close> of numbers; \<open>None\<close> stands for the \<open>-\<infinity>\<close> of no argument.\<close>

fun Math_max_ints :: "int list \<Rightarrow> int option" where
  "Math_max_ints [] = None"
| "Math_max_ints (x # xs) =
     (case Math_max_ints xs of None \<Rightarrow> Some x | Some m \<Rightarrow> Some (max x m))"

record handContext =
  isTopPair :: bool
  isOverPair :: bool

definition analyzeHandContext :: "solver \<Rightarrow> card \<times> card \<Rightarrow> card list \<Rightarrow> handContext" where
  "analyzeHandContext S hole board =
     (let h = Hand_solve S ([fst hole, snd hole] @ board);
          boardRanks = map (Card_rank S) board;
          highestBoard = Math_max_ints boardRanks;
          pocketPair = isPocketPair S hole
      in if name h = ''Pair''
         then (let pairRank = firstCardRank h
               in \<lparr> isTopPair = (Some pairRank = highestBoard),
                    isOverPair = (pocketPair \<and>
                      (case highestBoard of None \<Rightarrow> True | Some hb \<Rightarrow> pairRank > hb)) \<rparr>)
         else \<lparr> isTopPair = False, isOverPair = False \<rparr>)"

record draws =
  flushDraw :: bool
  straightDraw :: bool
  outs :: nat

text \<open>The ten windows \<open>[start, \<dots>, start + 4]\<close> for \<open>start = 1, \<dots>, 10\<close>.\<close>

definition straights :: "int list list" where
  "straights = map (\<lambda>start. [start, start + 1, start + 2, start + 3, start + 4]) [1..10]"

definition windowCount :: "int list \<Rightarrow> int list \<Rightarrow> nat" where
  "windowCount unique seq = length (filter (\<lambda>r. r \<in> set unique) seq)"

text \<open>
  The loop over the windows; its result is the final value of \<^verbatim>\<open>draws.straightDraw\<close>,
  which is \<^verbatim>\<open>false\<close> before the loop. Both \<^verbatim>\<open>break\<close>s leave the loop.
\<close>

fun straightLoop :: "int list \<Rightarrow> int list list \<Rightarrow> bool" where
  "straightLoop unique [] = False"
| "straightLoop unique (seq # rest) =
     (let count = windowCount unique seq
      in if count = 5 then False
         else if count = 4 then True
         else straightLoop unique rest)"

definition drawRanks :: "solver \<Rightarrow> card list \<Rightarrow> int list" where
  "drawRanks S allCards =
     (let ranks = map (Card_rank S) allCards;
          ranks = (if 14 \<in> set ranks then ranks @ [1] else ranks)
      in sort (remdups ranks))"

definition analyzeDrawPotential :: "solver \<Rightarrow> card \<times> card \<Rightarrow> card list \<Rightarrow> draws" where
  "analyzeDrawPotential S hole board =
     (let allCards = [fst hole, snd hole] @ board;
          suitCounts = Object_values (countKeys (map snd allCards));
          hasFlush = list_ex (\<lambda>c. c \<ge> 5) suitCounts;
          fd = (if \<not> hasFlush then list_ex (\<lambda>c. c = 4) suitCounts else False);
          unique = drawRanks S allCards
      in \<lparr> flushDraw = fd, straightDraw = straightLoop unique straights, outs = 0 \<rparr>)"

text \<open>
  The straight draw as the specification words it: some window holds exactly four of the
  ranks present, and no window holds all five.
\<close>

definition straightDrawSpec :: "solver \<Rightarrow> card \<times> card \<Rightarrow> card list \<Rightarrow> bool" where
  "straightDrawSpec S hole board =
     (let unique = drawRanks S ([fst hole, snd hole] @ board)
      in list_ex (\<lambda>seq. windowCount unique seq = 4) straights
         \<and> \<not> list_ex (\<lambda>seq. windowCount unique seq = 5) straights)"

section \<open>The decision engine: inputs and derived signals\<close>

definition MAX_RAISES_PER_ROUND :: nat where "MAX_RAISES_PER_ROUND = 3"
definition STRENGTH_TIE_DELTA :: real where "STRENGTH_TIE_DELTA = 0.25"
definition ODDS_TIE_DELTA :: real where "ODDS_TIE_DELTA = 0.02"
definition OPPONENT_THRESHOLD :: int where "OPPONENT_THRESHOLD = 3"
definition AGG_FACTOR :: real where "AGG_FACTOR = 0.1"
definition THRESHOLD_FACTOR :: real where "THRESHOLD_FACTOR = 0.3"
definition MIN_HANDS_FOR_WEIGHT :: real where "MIN_HANDS_FOR_WEIGHT = 10"
definition WEIGHT_GROWTH :: real where "WEIGHT_GROWTH = 10"
definition ALLIN_HAND_PREFLOP :: real where "ALLIN_HAND_PREFLOP = 0.85"
definition ALLIN_HAND_POSTFLOP :: real where "ALLIN_HAND_POSTFLOP = 0.5"

record stats =
  hands :: nat
  folds :: nat
  vpip :: nat
  calls :: nat
  aggressiveActs :: nat

text \<open>
  A player object. \<open>seat\<close> stands for the identity of the object, which the source
  compares with \<^verbatim>\<open>!==\<close> and \<^verbatim>\<open>indexOf\<close>; \<open>cards\<close> holds the two values
  \<^verbatim>\<open>player.cards[i].dataset.value\<close>; \<open>bigBlindSeat\<close> is the flag
  \<^verbatim>\<open>player.bigBlind\<close> (the name \<open>bigBlind\<close> is kept for the blind of the context).
\<close>

record player =
  seat :: nat
  chips :: real
  roundBet :: real
  folded :: bool
  allIn :: bool
  cards :: "card \<times> card"
  dealer :: bool
  bigBlindSeat :: bool
  stats :: stats

record ctx =
  currentBet :: real
  pot :: real
  smallBlind :: real
  bigBlind :: real
  raisesThisRound :: nat
  currentPhaseIndex :: nat
  players :: "player list"
  lastRaise :: real

datatype decision = Fold | Check | Call real | Raise real

text \<open>\<^verbatim>\<open>Math.random()\<close>: the source of randomness is a sequence of numbers, consumed
  from the front.\<close>

type_synonym rng = "nat \<Rightarrow> real"

definition Math_random :: "rng \<Rightarrow> real \<times> rng" where
  "Math_random g = (g 0, \<lambda>n. g (Suc n))"

text \<open>\<^verbatim>\<open>Array.prototype.findIndex\<close>.\<close>

fun findIndex :: "('a \<Rightarrow> bool) \<Rightarrow> 'a list \<Rightarrow> int" where
  "findIndex P [] = - 1"
| "findIndex P (y # ys) =
     (if P y then 0
      else (let i = findIndex P ys in if i < 0 then - 1 else i + 1))"

text \<open>\<^verbatim>\<open>xs[i]\<close>, which is \<^verbatim>\<open>undefined\<close> out of range.\<close>

definition arrayAt :: "'a list \<Rightarrow> int \<Rightarrow> 'a option" where
  "arrayAt xs i = (if 0 \<le> i \<and> i < int (length xs) then Some (xs ! nat i) else None)"

text \<open>\<^verbatim>\<open>a % n\<close> on integers takes the sign of \<open>a\<close>. (For \<open>n = 0\<close> JavaScript gives
  \<^verbatim>\<open>NaN\<close>; the decision engine uses no remainder by zero.)\<close>

definition js_rem :: "int \<Rightarrow> int \<Rightarrow> int" where
  "js_rem a n = sgn a * (\<bar>a\<bar> mod \<bar>n\<bar>)"

definition samePlayer :: "player \<Rightarrow> player \<Rightarrow> bool" where
  "samePlayer p q = (seat p = seat q)"

definition needToCallOf :: "player \<Rightarrow> ctx \<Rightarrow> real" where
  "needToCallOf P C = currentBet C - roundBet P"

definition active :: "ctx \<Rightarrow> player list" where
  "active C = filter (\<lambda>p. \<not> folded p) (players C)"

text \<open>
  \<^verbatim>\<open>nextActive(startIdx)\<close>. The start index comes from \<^verbatim>\<open>findIndex\<close> and is at
  least \<open>-1\<close>, so every index \<open>(startIdx + i) % players.length\<close> of the loop is in range.
\<close>

definition nextActive :: "player list \<Rightarrow> int \<Rightarrow> player option" where
  "nextActive ps startIdx =
     (let n = int (length ps)
      in case find (\<lambda>i. case arrayAt ps (js_rem (startIdx + i) n) of
                           Some p \<Rightarrow> \<not> folded p | None \<Rightarrow> False) [1..n] of
           Some i \<Rightarrow> arrayAt ps (js_rem (startIdx + i) n)
         | None \<Rightarrow> arrayAt ps startIdx)"

definition positionFactorOf :: "player \<Rightarrow> ctx \<Rightarrow> real" where
  "positionFactorOf P C =
     (let act = active C;
          seatIdx = findIndex (samePlayer P) act;
          firstToAct = (if currentPhaseIndex C = 0
                        then nextActive (players C) (findIndex bigBlindSeat (players C))
                        else nextActive (players C) (findIndex dealer (players C)));
          refIdx = (case firstToAct of None \<Rightarrow> - 1
                    | Some f \<Rightarrow> findIndex (samePlayer f) act);
          n = int (length act)
      in if n > 1 then real_of_int (js_rem (seatIdx - refIdx + n) n) / real_of_int (n - 1)
         else 0)"

text \<open>
  The community cards are read from the page in the source; here they are an argument.
\<close>

definition strengthOf :: "solver \<Rightarrow> player \<Rightarrow> card list \<Rightarrow> jsnum" where
  "strengthOf S P communityCards =
     (if length communityCards = 0
      then preflopHandScore (fst (cards P)) (snd (cards P))
      else Num (real (rank (Hand_solve S ([fst (cards P), snd (cards P)] @ communityCards)))))"

record boardCtx =
  topPair :: bool
  overPair :: bool
  drawChance :: bool
  textureRisk :: real

definition boardContext :: "solver \<Rightarrow> player \<Rightarrow> card list \<Rightarrow> boardCtx" where
  "boardContext S P communityCards =
     (if \<not> (length communityCards = 0) \<and> length communityCards \<ge> 3
      then (let ctxInfo = analyzeHandContext S (cards P) communityCards;
                dr = analyzeDrawPotential S (cards P) communityCards
            in \<lparr> topPair = isTopPair ctxInfo,
                 overPair = isOverPair ctxInfo,
                 drawChance = (flushDraw dr \<or> straightDraw dr),
                 textureRisk = evaluateBoardTexture communityCards \<rparr>)
      else \<lparr> topPair = False, overPair = False, drawChance = False, textureRisk = 0 \<rparr>)"

definition calcFoldRate :: "player \<Rightarrow> real" where
  "calcFoldRate p =
     (if hands (stats p) > 0 then real (folds (stats p)) / real (hands (stats p)) else 0)"

definition avgFoldRate :: "player list \<Rightarrow> real" where
  "avgFoldRate opponents =
     (if length opponents = 0 then 0
      else foldl (\<lambda>s p. s + calcFoldRate p) 0 opponents / real (length opponents))"

definition opponentsOf :: "player \<Rightarrow> ctx \<Rightarrow> player list" where
  "opponentsOf P C = filter (\<lambda>p. \<not> samePlayer p P) (players C)"

definition avgVPIP :: "player list \<Rightarrow> real" where
  "avgVPIP opponents =
     foldl (\<lambda>s p. s + (real (vpip (stats p)) + 1) / (real (hands (stats p)) + 2)) 0 opponents
       / real (length opponents)"

definition avgAgg :: "player list \<Rightarrow> real" where
  "avgAgg opponents =
     foldl (\<lambda>s p. s + (real (aggressiveActs (stats p)) + 1) / (real (calls (stats p)) + 1)) 0
       opponents / real (length opponents)"

definition avgHands :: "player list \<Rightarrow> real" where
  "avgHands opponents =
     foldl (\<lambda>s p. s + real (hands (stats p))) 0 opponents / real (length opponents)"

definition weight :: "player list \<Rightarrow> real" where
  "weight opponents =
     (if avgHands opponents < MIN_HANDS_FOR_WEIGHT then 0
      else 1 - exp (- (avgHands opponents - MIN_HANDS_FOR_WEIGHT) / WEIGHT_GROWTH))"

text \<open>The three values that the source adjusts step by step.\<close>

record tuning =
  aggressiveness :: real
  raiseThreshold :: real
  bluffChance :: real

definition baseTuning :: "bool \<Rightarrow> real \<Rightarrow> int \<Rightarrow> tuning" where
  "baseTuning preflop positionFactor activeOpponents =
     (let oppAggAdj = (if activeOpponents < OPPONENT_THRESHOLD
                       then real_of_int (OPPONENT_THRESHOLD - activeOpponents) * AGG_FACTOR else 0);
          thresholdAdj = (if activeOpponents < OPPONENT_THRESHOLD
                          then real_of_int (OPPONENT_THRESHOLD - activeOpponents) * THRESHOLD_FACTOR
                          else 0);
          aggr = (if preflop then 0.8 + 0.4 * positionFactor else 1 + 0.6 * positionFactor)
                   + oppAggAdj;
          thr = (if preflop then 8 - 2 * positionFactor else max 2 (4 - 2 * positionFactor));
          thr = max 1 (thr - thresholdAdj)
      in \<lparr> aggressiveness = aggr, raiseThreshold = thr, bluffChance = 0 \<rparr>)"

definition boardTuning :: "bool \<Rightarrow> boardCtx \<Rightarrow> tuning \<Rightarrow> tuning" where
  "boardTuning preflop b t =
     (if \<not> preflop
      then (let t = (if overPair b
                     then t\<lparr> aggressiveness := aggressiveness t + 0.2,
                            raiseThreshold := raiseThreshold t - 0.5 \<rparr>
                     else if topPair b
                     then t\<lparr> aggressiveness := aggressiveness t + 0.1,
                            raiseThreshold := raiseThreshold t - 0.3 \<rparr>
                     else t);
                t = (if drawChance b
                     then t\<lparr> aggressiveness := aggressiveness t + 0.05,
                            raiseThreshold := raiseThreshold t - 0.25 \<rparr>
                     else t)
            in t\<lparr> aggressiveness := aggressiveness t * (1 - textureRisk b * 0.5),
                 raiseThreshold := min 10 (raiseThreshold t + textureRisk b) \<rparr>)
      else t)"

definition opponentTuning :: "player list \<Rightarrow> boardCtx \<Rightarrow> tuning \<Rightarrow> tuning" where
  "opponentTuning opponents b t =
     (if length opponents > 0
      then (let w = weight opponents;
                t = t\<lparr> bluffChance := min 0.3 (avgFoldRate opponents) * w \<rparr>;
                t = t\<lparr> bluffChance := bluffChance t * (1 - textureRisk b * 0.5) \<rparr>;
                t = (if avgVPIP opponents < 0.25
                     then t\<lparr> raiseThreshold := raiseThreshold t - 0.5 * w,
                            aggressiveness := aggressiveness t + 0.1 * w \<rparr>
                     else if avgVPIP opponents > 0.5
                     then t\<lparr> raiseThreshold := raiseThreshold t + 0.5 * w,
                            aggressiveness := aggressiveness t - 0.1 * w \<rparr>
                     else t)
            in (if avgAgg opponents > 1.5
                then t\<lparr> aggressiveness := aggressiveness t - 0.1 * w \<rparr>
                else if avgAgg opponents < 0.7
                then t\<lparr> aggressiveness := aggressiveness t + 0.1 * w \<rparr>
                else t))
      else t)"

text \<open>Everything the decision logic and the sizing functions read.\<close>

record signals =
  needToCall :: real
  potOdds :: jsnum
  stackRatio :: jsnum
  spr :: real
  canRaise :: bool
  activeOpponents :: int
  positionFactor :: real
  preflop :: bool
  strength :: jsnum
  strengthRatio :: jsnum
  board :: boardCtx
  tune :: tuning
  facingAllIn :: bool

definition computeSignals :: "solver \<Rightarrow> player \<Rightarrow> ctx \<Rightarrow> card list \<Rightarrow> signals" where
  "computeSignals S P C communityCards =
     (let ntc = needToCallOf P C;
          pf = positionFactorOf P C;
          ao = int (length (active C)) - 1;
          pre = (length communityCards = 0);
          st = strengthOf S P communityCards;
          b = boardContext S P communityCards;
          opponents = opponentsOf P C
      in \<lparr> needToCall = ntc,
           potOdds = js_div ntc (pot C + ntc),
           stackRatio = js_div ntc (chips P),
           spr = chips P / max 1 (pot C + ntc),
           canRaise = (raisesThisRound C < MAX_RAISES_PER_ROUND \<and> chips P > bigBlind C),
           activeOpponents = ao,
           positionFactor = pf,
           preflop = pre,
           strength = st,
           strengthRatio = js_scale st (1 / 10),
           board = b,
           tune = opponentTuning opponents b (boardTuning pre b (baseTuning pre pf ao)),
           facingAllIn = list_ex allIn opponents \<rparr>)"

section \<open>Bet sizing\<close>

text \<open>Each sizing function draws one random number; it is the argument \<open>u\<close>.\<close>

definition valueBetSize :: "player \<Rightarrow> ctx \<Rightarrow> signals \<Rightarrow> real \<Rightarrow> real" where
  "valueBetSize P C sg u =
     (let base =
            (if preflop sg
             then (let base = 0.55;
                       base = (if js_ge (strengthRatio sg) (Num 0.9) then base + 0.15 else base);
                       base = base + real_of_int (activeOpponents sg) * 0.04;
                       base = base + (1 - positionFactor sg) * 0.05
                   in if positionFactor sg < 0.3 \<and> js_ge (strengthRatio sg) (Num 0.8)
                      then base + 0.1 else base)
             else (let base = (if textureRisk (board sg) > 0.6 then 0.7
                               else if textureRisk (board sg) > 0.3 then 0.6 else 0.45);
                       base = (if js_gt (strengthRatio sg) (Num 0.95) then base + 0.1 else base);
                       base = base + real_of_int (activeOpponents sg) * 0.03
                   in base + (1 - positionFactor sg) * 0.05));
          base = (if spr sg < 2 then base + 0.1
                  else if spr sg < 4 then base + 0.05
                  else if spr sg > 6 then base - 0.05
                  else base);
          rand = u * 0.2 - 0.1;
          factor = min 1 (max 0.35 (base + rand))
      in roundTo10 (min (chips P) ((pot C + needToCall sg) * factor)))"

definition bluffBetSize :: "player \<Rightarrow> ctx \<Rightarrow> signals \<Rightarrow> real \<Rightarrow> real" where
  "bluffBetSize P C sg u =
     (let base = 0.25 + textureRisk (board sg) * 0.05;
          base = base + real_of_int (activeOpponents sg) * 0.02;
          base = base + (1 - positionFactor sg) * 0.03;
          base = (if spr sg < 3 then base + 0.05
                  else if spr sg > 5 then base - 0.05
                  else base);
          rand = u * 0.08 - 0.04;
          factor = min 0.45 (max 0.2 (base + rand))
      in roundTo10 (min (chips P) ((pot C + needToCall sg) * factor)))"

definition protectionBetSize :: "player \<Rightarrow> ctx \<Rightarrow> signals \<Rightarrow> real \<Rightarrow> real" where
  "protectionBetSize P C sg u =
     (let base = 0.45 + textureRisk (board sg) * 0.25;
          base = base + real_of_int (activeOpponents sg) * 0.03;
          base = base + (1 - positionFactor sg) * 0.04;
          base = (if spr sg < 3 then base + 0.1
                  else if spr sg > 5 then base - 0.05
                  else base);
          rand = u * 0.1 - 0.05;
          factor = min 0.8 (max 0.35 (base + rand))
      in roundTo10 (min (chips P) ((pot C + needToCall sg) * factor)))"

definition overBetSize :: "player \<Rightarrow> ctx \<Rightarrow> signals \<Rightarrow> real \<Rightarrow> real" where
  "overBetSize P C sg u =
     (let base = 1.2 - textureRisk (board sg) * 0.1;
          base = base + real_of_int (activeOpponents sg) * 0.05;
          base = (if spr sg < 2 then base + 0.3 else base);
          rand = u * 0.15 - 0.05;
          factor = max 1.1 (min 1.5 (base + rand))
      in roundTo10 (min (chips P) ((pot C + needToCall sg) * factor)))"

section \<open>The decision engine: the decision\<close>

text \<open>The automatic shove; \<open>None\<close> is the still undefined \<^verbatim>\<open>decision\<close>.\<close>

definition shove :: "player \<Rightarrow> ctx \<Rightarrow> signals \<Rightarrow> decision option" where
  "shove P C sg =
     (if spr sg \<le> 1.2 \<and> js_ge (strengthRatio sg) (Num 0.65) then Some (Raise (chips P))
      else if preflop sg \<and> chips P \<le> bigBlind C * 10 \<and> js_ge (strengthRatio sg) (Num 0.75)
      then Some (Raise (chips P))
      else None)"

text \<open>
  The thresholds and the two ties compare computed numbers. The numbers are the exact
  ones here; in the source they carry the rounding of the binary arithmetic, so that on
  an input whose exact value lies on a bound or closer to it than that rounding the
  source can take the other branch.
\<close>

definition strengthTie :: "signals \<Rightarrow> bool" where
  "strengthTie sg =
     js_le (js_abs (js_sub (strength sg) (Num (raiseThreshold (tune sg)))))
           (Num STRENGTH_TIE_DELTA)"

definition oddsJustified :: "signals \<Rightarrow> bool" where
  "oddsJustified sg =
     (js_ge (js_scale (strengthRatio sg) (aggressiveness (tune sg))) (potOdds sg)
      \<and> js_le (stackRatio sg) (Num (if preflop sg then 0.5 else 0.7)))"

definition oddsTie :: "signals \<Rightarrow> bool" where
  "oddsTie sg =
     js_le (js_abs (js_sub (js_scale (strengthRatio sg) (aggressiveness (tune sg))) (potOdds sg)))
           (Num ODDS_TIE_DELTA)"

text \<open>The branches taken when the shove did not decide.\<close>

definition branchDecision :: "player \<Rightarrow> ctx \<Rightarrow> signals \<Rightarrow> rng \<Rightarrow> decision \<times> rng" where
  "branchDecision P C sg g =
     (if needToCall sg \<le> 0
      then (if canRaise sg \<and> js_ge (strength sg) (Num (raiseThreshold (tune sg)))
            then (let (u, g1) = Math_random g;
                      raiseAmt = valueBetSize P C sg u;
                      raiseAmt = max (currentBet C + lastRaise C) raiseAmt
                  in if strengthTie sg
                     then (let (v, g2) = Math_random g1
                           in (if v < 0.5 then Check else Raise raiseAmt, g2))
                     else (Raise raiseAmt, g1))
            else (Check, g))
      else if canRaise sg \<and> js_ge (strength sg) (Num (raiseThreshold (tune sg)))
              \<and> js_le (stackRatio sg) (Num (1 / 3))
      then (let (u, g1) = Math_random g;
                raiseAmt = protectionBetSize P C sg u;
                raiseAmt = max (currentBet C + lastRaise C) raiseAmt
            in if strengthTie sg
               then (let callAmt = min (chips P) (needToCall sg);
                         alt = (if oddsJustified sg then Call callAmt else Fold);
                         (v, g2) = Math_random g1
                     in (if v < 0.5 then Raise raiseAmt else alt, g2))
               else (Raise raiseAmt, g1))
      else if oddsJustified sg
      then (let callAmt = min (chips P) (needToCall sg)
            in if oddsTie sg
               then (let (v, g1) = Math_random g
                     in (if v < 0.5 then Call callAmt else Fold, g1))
               else (Call callAmt, g))
      else (Fold, g))"

definition mainDecision :: "player \<Rightarrow> ctx \<Rightarrow> signals \<Rightarrow> rng \<Rightarrow> decision \<times> rng" where
  "mainDecision P C sg g =
     (case shove P C sg of Some d \<Rightarrow> (d, g) | None \<Rightarrow> branchDecision P C sg g)"

text \<open>Facing an all-in, a fold with a good hand becomes a call.\<close>

definition allInDefense :: "player \<Rightarrow> signals \<Rightarrow> decision \<Rightarrow> decision" where
  "allInDefense P sg d =
     (if d = Fold \<and> facingAllIn sg
      then (let goodThreshold = (if preflop sg then ALLIN_HAND_PREFLOP else ALLIN_HAND_POSTFLOP)
            in if js_ge (strengthRatio sg) (Num goodThreshold)
               then Call (min (chips P) (needToCall sg)) else d)
      else d)"

definition bluffInjection ::
  "player \<Rightarrow> ctx \<Rightarrow> signals \<Rightarrow> decision \<Rightarrow> rng \<Rightarrow> decision \<times> rng" where
  "bluffInjection P C sg d g =
     (if bluffChance (tune sg) > 0 \<and> canRaise sg \<and> (d = Check \<or> d = Fold) \<and> \<not> facingAllIn sg
      then (let (v, g1) = Math_random g
            in if v < bluffChance (tune sg)
               then (let (u, g2) = Math_random g1;
                         bluffAmt = max (currentBet C + lastRaise C) (bluffBetSize P C sg u)
                     in (Raise bluffAmt, g2))
               else (d, g1))
      else (d, g))"

definition overbetUpsize ::
  "player \<Rightarrow> ctx \<Rightarrow> signals \<Rightarrow> decision \<Rightarrow> rng \<Rightarrow> decision \<times> rng" where
  "overbetUpsize P C sg d g =
     (case d of
        Raise amount \<Rightarrow>
          (if \<not> preflop sg \<and> js_ge (strengthRatio sg) (Num 0.95) \<and> spr sg \<le> 2
           then (let (v, g1) = Math_random g
                 in if v < 0.3
                    then (let (u, g2) = Math_random g1
                          in (Raise (max amount (overBetSize P C sg u)), g2))
                    else (d, g1))
           else (d, g))
      | _ \<Rightarrow> (d, g))"

definition isRaise :: "decision \<Rightarrow> bool" where
  "isRaise d = (case d of Raise amount \<Rightarrow> True | _ \<Rightarrow> False)"

definition slowPlay :: "signals \<Rightarrow> decision \<Rightarrow> rng \<Rightarrow> decision \<times> rng" where
  "slowPlay sg d g =
     (if \<not> preflop sg \<and> js_ge (strengthRatio sg) (Num 0.9) \<and> isRaise d
      then (let (v, g1) = Math_random g in (if v < 0.3 then Check else d, g1))
      else (d, g))"

definition protectBet ::
  "player \<Rightarrow> ctx \<Rightarrow> signals \<Rightarrow> decision \<Rightarrow> rng \<Rightarrow> decision \<times> rng" where
  "protectBet P C sg d g =
     (if \<not> preflop sg \<and> currentBet C = 0 \<and> d = Check
      then (let (v, g1) = Math_random g
            in if v < 0.3
               then (let (u, g2) = Math_random g1;
                         betAmt = protectionBetSize P C sg u
                     in (Raise (max (lastRaise C) betAmt), g2))
               else (d, g1))
      else (d, g))"

text \<open>The last step: a raise below the minimum becomes a call, or a check.\<close>

definition ensureMinRaise :: "player \<Rightarrow> ctx \<Rightarrow> signals \<Rightarrow> decision \<Rightarrow> decision" where
  "ensureMinRaise P C sg d =
     (case d of
        Raise amount \<Rightarrow>
          (let minRaise = needToCall sg + lastRaise C
           in if amount < minRaise
              then (if needToCall sg > 0 then Call (min (chips P) (needToCall sg)) else Check)
              else d)
      | _ \<Rightarrow> d)"

text \<open>The decision after the bluff injection, before the three later overrides.\<close>

definition decisionAfterBluff ::
  "player \<Rightarrow> ctx \<Rightarrow> signals \<Rightarrow> rng \<Rightarrow> decision \<times> rng" where
  "decisionAfterBluff P C sg g =
     (let (d, g1) = mainDecision P C sg g
      in bluffInjection P C sg (allInDefense P sg d) g1)"

text \<open>The decision before the last step.\<close>

definition decisionBeforeMinRaise ::
  "player \<Rightarrow> ctx \<Rightarrow> signals \<Rightarrow> rng \<Rightarrow> decision" where
  "decisionBeforeMinRaise P C sg g =
     (let (d, g1) = decisionAfterBluff P C sg g;
          (d, g2) = overbetUpsize P C sg d g1;
          (d, g3) = slowPlay sg d g2;
          (d, g4) = protectBet P C sg d g3
      in d)"

definition chooseBotAction ::
  "solver \<Rightarrow> player \<Rightarrow> ctx \<Rightarrow> card list \<Rightarrow> rng \<Rightarrow> decision" where
  "chooseBotAction S P C communityCards g =
     (let sg = computeSignals S P C communityCards
      in ensureMinRaise P C sg (decisionBeforeMinRaise P C sg g))"

section \<open>The action queue\<close>
























section \<open>Concrete tables\<close>

text \<open>Players, contexts and evaluator answers at which the theorems below are run.\<close>

definition noStats :: stats where
  "noStats = \<lparr> hands = 0, folds = 0, vpip = 0, calls = 0, aggressiveActs = 0 \<rparr>"

text \<open>
  Four seats before the flop, blinds 10 and 20: the player after the big blind has raised
  to 40, the dealer to 60 and the small blind to 80; the big blind, with two aces and a
  stack of \<open>c\<close> behind the 20 posted, is to act.
\<close>

definition buttonRaiser :: player where
  "buttonRaiser = \<lparr> seat = 0, chips = 1000, roundBet = 60, folded = False, allIn = False,
       cards = ((CHR ''2'', CHR ''C''), (CHR ''7'', CHR ''D'')),
       dealer = True, bigBlindSeat = False, stats = noStats \<rparr>"

definition smallBlindRaiser :: player where
  "smallBlindRaiser = \<lparr> seat = 1, chips = 1000, roundBet = 80, folded = False, allIn = False,
       cards = ((CHR ''3'', CHR ''C''), (CHR ''8'', CHR ''D'')),
       dealer = False, bigBlindSeat = False, stats = noStats \<rparr>"

definition acesBB :: "real \<Rightarrow> player" where
  "acesBB c = \<lparr> seat = 2, chips = c, roundBet = 20, folded = False, allIn = False,
       cards = ((CHR ''A'', CHR ''C''), (CHR ''A'', CHR ''D'')),
       dealer = False, bigBlindSeat = True, stats = noStats \<rparr>"

definition firstRaiser :: player where
  "firstRaiser = \<lparr> seat = 3, chips = 1000, roundBet = 40, folded = False, allIn = False,
       cards = ((CHR ''4'', CHR ''S''), (CHR ''9'', CHR ''H'')),
       dealer = False, bigBlindSeat = False, stats = noStats \<rparr>"

definition cappedPot :: "real \<Rightarrow> ctx" where
  "cappedPot c = \<lparr> currentBet = 80, pot = 200, smallBlind = 10, bigBlind = 20,
       raisesThisRound = 3, currentPhaseIndex = 0,
       players = [buttonRaiser, smallBlindRaiser, acesBB c, firstRaiser],
       lastRaise = 20 \<rparr>"

text \<open>An evaluator for the hands before the flop, where \<^verbatim>\<open>Hand.solve\<close> is not
  called, and a random sequence.\<close>

definition highCardSolver :: solver where
  "highCardSolver = \<lparr> Card_rank = specRank,
       Hand_solve = (\<lambda>cs. \<lparr> rank = 1, name = ''High Card'', firstCardRank = 14 \<rparr>) \<rparr>"

definition coin :: rng where
  "coin = (\<lambda>n. 1 / 2)"

text \<open>Two seats before the flop when nobody has raised: the dealer has completed the
  small blind, and the big blind with two aces is to act.\<close>

definition limper :: player where
  "limper = \<lparr> seat = 1, chips = 1000, roundBet = 20, folded = False, allIn = False,
       cards = ((CHR ''2'', CHR ''C''), (CHR ''7'', CHR ''D'')),
       dealer = True, bigBlindSeat = False, stats = noStats \<rparr>"

definition unraisedPot :: "real \<Rightarrow> ctx" where
  "unraisedPot c = \<lparr> currentBet = 20, pot = 40, smallBlind = 10, bigBlind = 20,
       raisesThisRound = 0, currentPhaseIndex = 0, players = [limper, acesBB c],
       lastRaise = 20 \<rparr>"

text \<open>
  Two seats on the flop J-Q-K of hearts: the dealer holds 9 and 10 of hearts, a straight
  flush, which the evaluator ranks 9, has a stack of \<open>c\<close> and faces a bet of 40 that
  makes the pot 100. The random sequence \<open>low\<close> passes every test against 0.3.
\<close>

definition flushHero :: "real \<Rightarrow> player" where
  "flushHero c = \<lparr> seat = 0, chips = c, roundBet = 0, folded = False, allIn = False,
       cards = ((CHR ''9'', CHR ''H''), (CHR ''T'', CHR ''H'')),
       dealer = True, bigBlindSeat = False, stats = noStats \<rparr>"

definition bettor :: player where
  "bettor = \<lparr> seat = 1, chips = 1000, roundBet = 40, folded = False, allIn = False,
       cards = ((CHR ''2'', CHR ''C''), (CHR ''7'', CHR ''D'')),
       dealer = False, bigBlindSeat = True, stats = noStats \<rparr>"

definition flopBet :: "real \<Rightarrow> ctx" where
  "flopBet c = \<lparr> currentBet = 40, pot = 100, smallBlind = 10, bigBlind = 20,
       raisesThisRound = 1, currentPhaseIndex = 1, players = [flushHero c, bettor],
       lastRaise = 40 \<rparr>"

definition heartsFlop :: "card list" where
  "heartsFlop = [(CHR ''J'', CHR ''H''), (CHR ''Q'', CHR ''H''), (CHR ''K'', CHR ''H'')]"

definition straightFlushSolver :: solver where
  "straightFlushSolver = \<lparr> Card_rank = specRank,
       Hand_solve = (\<lambda>cs. \<lparr> rank = 9, name = ''Straight Flush'', firstCardRank = 13 \<rparr>) \<rparr>"

definition low :: rng where
  "low = (\<lambda>n. 1 / 10)"

text \<open>Three players have put in the big blind of 20; the big blind holds 10 and 9 of
  different suits and has a stack of \<open>c\<close> behind.\<close>

definition button :: player where
  "button = \<lparr> seat = 0, chips = 1000, roundBet = 20, folded = False, allIn = False,
       cards = ((CHR ''2'', CHR ''C''), (CHR ''7'', CHR ''D'')),
       dealer = True, bigBlindSeat = False, stats = noStats \<rparr>"

definition smallBlindCaller :: player where
  "smallBlindCaller = \<lparr> seat = 1, chips = 1000, roundBet = 20, folded = False, allIn = False,
       cards = ((CHR ''3'', CHR ''C''), (CHR ''8'', CHR ''D'')),
       dealer = False, bigBlindSeat = False, stats = noStats \<rparr>"

definition tenNineBB :: "real \<Rightarrow> player" where
  "tenNineBB c = \<lparr> seat = 2, chips = c, roundBet = 20, folded = False, allIn = False,
       cards = ((CHR ''T'', CHR ''C''), (CHR ''9'', CHR ''D'')),
       dealer = False, bigBlindSeat = True, stats = noStats \<rparr>"

definition limpedPot :: "real \<Rightarrow> ctx" where
  "limpedPot c = \<lparr> currentBet = 20, pot = 60, smallBlind = 10, bigBlind = 20,
       raisesThisRound = 0, currentPhaseIndex = 0,
       players = [button, smallBlindCaller, tenNineBB c], lastRaise = 20 \<rparr>"

text \<open>3 and 4 in hand on a board of 5, 6 and 7: a made straight.\<close>

definition lowHole :: "card \<times> card" where
  "lowHole = ((CHR ''3'', CHR ''C''), (CHR ''4'', CHR ''D''))"

definition lowBoard :: "card list" where
  "lowBoard = [(CHR ''5'', CHR ''H''), (CHR ''6'', CHR ''S''), (CHR ''7'', CHR ''C'')]"

text \<open>Two boards for the texture: two cards, and the flop 7-8-9 of hearts.\<close>

definition twoCards :: "card list" where
  "twoCards = [(CHR ''7'', CHR ''H''), (CHR ''8'', CHR ''H'')]"

definition flop789 :: "card list" where
  "flop789 = [(CHR ''7'', CHR ''H''), (CHR ''8'', CHR ''H''), (CHR ''9'', CHR ''H'')]"





section \<open>Projections of the signals\<close>

lemma sg_needToCall: "needToCall (computeSignals S P C cc) = needToCallOf P C"
  by (simp add: computeSignals_def Let_def)

lemma sg_spr: "spr (computeSignals S P C cc) = chips P / max 1 (pot C + needToCallOf P C)"
  by (simp add: computeSignals_def Let_def)

lemma sg_preflop: "preflop (computeSignals S P C cc) = (length cc = 0)"
  by (simp add: computeSignals_def Let_def)

lemma sg_strength: "strength (computeSignals S P C cc) = strengthOf S P cc"
  by (simp add: computeSignals_def Let_def)

lemma sg_strengthRatio:
  "strengthRatio (computeSignals S P C cc) = js_scale (strengthOf S P cc) (1 / 10)"
  by (simp add: computeSignals_def Let_def)

lemma sg_canRaise:
  "canRaise (computeSignals S P C cc)
     = (raisesThisRound C < MAX_RAISES_PER_ROUND \<and> chips P > bigBlind C)"
  by (simp add: computeSignals_def Let_def)

lemma sg_stackRatio:
  "stackRatio (computeSignals S P C cc) = js_div (needToCallOf P C) (chips P)"
  by (simp add: computeSignals_def Let_def)

lemma sg_potOdds:
  "potOdds (computeSignals S P C cc) = js_div (needToCallOf P C) (pot C + needToCallOf P C)"
  by (simp add: computeSignals_def Let_def)

lemma sg_board: "board (computeSignals S P C cc) = boardContext S P cc"
  by (simp add: computeSignals_def Let_def)

lemma sg_facingAllIn:
  "facingAllIn (computeSignals S P C cc) = list_ex allIn (opponentsOf P C)"
  by (simp add: computeSignals_def Let_def)

lemma sg_activeOpponents:
  "activeOpponents (computeSignals S P C cc) = int (length (active C)) - 1"
  by (simp add: computeSignals_def Let_def)

lemma sg_positionFactor:
  "positionFactor (computeSignals S P C cc) = positionFactorOf P C"
  by (simp add: computeSignals_def Let_def)

lemmas sg_simps = sg_needToCall sg_spr sg_preflop sg_strength sg_strengthRatio sg_canRaise
  sg_stackRatio sg_potOdds sg_board sg_facingAllIn

section \<open>The overrides on a raise\<close>

lemma allInDefense_Raise: "allInDefense P sg (Raise a) = Raise a"
  by (simp add: allInDefense_def)

lemma bluffInjection_Raise: "bluffInjection P C sg (Raise a) g = (Raise a, g)"
  by (simp add: bluffInjection_def)

lemma overbetUpsize_preflop: "preflop sg \<Longrightarrow> overbetUpsize P C sg d g = (d, g)"
  by (simp add: overbetUpsize_def split: decision.splits)

lemma slowPlay_preflop: "preflop sg \<Longrightarrow> slowPlay sg d g = (d, g)"
  by (simp add: slowPlay_def)

lemma protectBet_Raise: "protectBet P C sg (Raise a) g = (Raise a, g)"
  by (simp add: protectBet_def)

section \<open>The stages of the decision\<close>

lemma decisionBeforeMinRaise_stages:
  "decisionBeforeMinRaise P C sg g =
     (let s3 = decisionAfterBluff P C sg g;
          s4 = overbetUpsize P C sg (fst s3) (snd s3);
          s5 = slowPlay sg (fst s4) (snd s4)
      in fst (protectBet P C sg (fst s5) (snd s5)))"
  by (simp add: decisionBeforeMinRaise_def Let_def case_prod_beta)

lemma decisionAfterBluff_stages:
  "decisionAfterBluff P C sg g =
     (let s1 = mainDecision P C sg g
      in bluffInjection P C sg (allInDefense P sg (fst s1)) (snd s1))"
  by (simp add: decisionAfterBluff_def Let_def case_prod_beta)

lemma branchDecision_no_raise:
  "\<not> canRaise sg \<Longrightarrow> fst (branchDecision P C sg g) \<noteq> Raise a"
  by (simp add: branchDecision_def Let_def case_prod_beta)

lemma shove_cases: "shove P C sg = None \<or> shove P C sg = Some (Raise (chips P))"
  by (simp add: shove_def)

lemma mainDecision_raise:
  assumes "\<not> canRaise sg" "fst (mainDecision P C sg g) = Raise a"
  shows "shove P C sg = Some (Raise a)"
  using assms shove_cases[of P C sg] branchDecision_no_raise[of sg P C g a]
  by (auto simp: mainDecision_def)

lemma allInDefense_raise: "allInDefense P sg d = Raise a \<Longrightarrow> d = Raise a"
  by (auto simp: allInDefense_def Let_def split: if_splits)

lemma bluffInjection_off: "\<not> canRaise sg \<Longrightarrow> bluffInjection P C sg d g = (d, g)"
  by (simp add: bluffInjection_def)

lemma decisionAfterBluff_raise:
  assumes "\<not> canRaise sg" "fst (decisionAfterBluff P C sg g) = Raise a"
  shows "shove P C sg = Some (Raise a)"
proof -
  from assms have "allInDefense P sg (fst (mainDecision P C sg g)) = Raise a"
    by (simp add: decisionAfterBluff_stages Let_def bluffInjection_off)
  hence "fst (mainDecision P C sg g) = Raise a" by (rule allInDefense_raise)
  with assms(1) show ?thesis by (rule mainDecision_raise)
qed

lemma overbetUpsize_raise:
  "fst (overbetUpsize P C sg d g) = Raise a \<Longrightarrow> isRaise d"
  by (cases d) (auto simp: overbetUpsize_def isRaise_def)

lemma slowPlay_raise: "fst (slowPlay sg d g) = Raise a \<Longrightarrow> d = Raise a"
  by (auto simp: slowPlay_def Let_def case_prod_beta split: if_splits)

lemma protectBet_raise:
  assumes "fst (protectBet P C sg d g) = Raise a"
  shows "d = Raise a
       \<or> (\<not> preflop sg \<and> currentBet C = 0 \<and> d = Check
           \<and> (\<exists>u. a = max (lastRaise C) (protectionBetSize P C sg u)))"
  using assms by (auto simp: protectBet_def Let_def case_prod_beta split: if_splits)

lemma ensureMinRaise_raise: "ensureMinRaise P C sg d = Raise a \<Longrightarrow> d = Raise a"
  by (cases d) (auto simp: ensureMinRaise_def Let_def split: if_splits)

lemma overbetUpsize_Raise:
  "fst (overbetUpsize P C sg (Raise a) g) =
     (if \<not> preflop sg \<and> js_ge (strengthRatio sg) (Num 0.95) \<and> spr sg \<le> 2
         \<and> fst (Math_random g) < 0.3
      then Raise (max a (overBetSize P C sg (fst (Math_random (snd (Math_random g))))))
      else Raise a)"
  by (simp add: overbetUpsize_def Let_def case_prod_beta)

lemma overbetUpsize_other: "\<not> isRaise d \<Longrightarrow> overbetUpsize P C sg d g = (d, g)"
  by (cases d) (simp_all add: overbetUpsize_def isRaise_def)

lemma slowPlay_fst:
  "fst (slowPlay sg d g) =
     (if \<not> preflop sg \<and> js_ge (strengthRatio sg) (Num 0.9) \<and> isRaise d
         \<and> fst (Math_random g) < 0.3
      then Check else d)"
  by (simp add: slowPlay_def Let_def case_prod_beta)

lemma protectBet_fst:
  "fst (protectBet P C sg d g) =
     (if \<not> preflop sg \<and> currentBet C = 0 \<and> d = Check \<and> fst (Math_random g) < 0.3
      then Raise (max (lastRaise C)
                      (protectionBetSize P C sg (fst (Math_random (snd (Math_random g))))))
      else d)"
  by (simp add: protectBet_def Let_def case_prod_beta)

text \<open>Every call is a call of what is owed, capped at the stack.\<close>

lemma branchDecision_call:
  "fst (branchDecision P C sg g) = Call a \<Longrightarrow> a = min (chips P) (needToCall sg)"
  by (auto simp: branchDecision_def Let_def case_prod_beta split: if_splits)

lemma mainDecision_call:
  "fst (mainDecision P C sg g) = Call a \<Longrightarrow> a = min (chips P) (needToCall sg)"
  using shove_cases[of P C sg] branchDecision_call[of P C sg g a]
  by (auto simp: mainDecision_def)

lemma allInDefense_call:
  "allInDefense P sg d = Call a \<Longrightarrow> d = Call a \<or> a = min (chips P) (needToCall sg)"
  by (auto simp: allInDefense_def Let_def split: if_splits)

lemma bluffInjection_call: "fst (bluffInjection P C sg d g) = Call a \<Longrightarrow> d = Call a"
  by (auto simp: bluffInjection_def Let_def case_prod_beta split: if_splits)

lemma overbetUpsize_call: "fst (overbetUpsize P C sg d g) = Call a \<Longrightarrow> d = Call a"
  by (cases d) (auto simp: overbetUpsize_def Let_def case_prod_beta split: if_splits)

lemma slowPlay_call: "fst (slowPlay sg d g) = Call a \<Longrightarrow> d = Call a"
  by (auto simp: slowPlay_fst split: if_splits)

lemma protectBet_call: "fst (protectBet P C sg d g) = Call a \<Longrightarrow> d = Call a"
  by (auto simp: protectBet_fst split: if_splits)

lemma ensureMinRaise_call:
  "ensureMinRaise P C sg d = Call a \<Longrightarrow> d = Call a \<or> a = min (chips P) (needToCall sg)"
  by (cases d) (auto simp: ensureMinRaise_def Let_def split: if_splits)

lemma chooseBotAction_call:
  assumes "chooseBotAction S P C cc g = Call a"
  shows "a = min (chips P) (needToCallOf P C)"
proof -
  let ?sg = "computeSignals S P C cc"
  let ?s1 = "mainDecision P C ?sg g"
  let ?s3 = "decisionAfterBluff P C ?sg g"
  let ?s4 = "overbetUpsize P C ?sg (fst ?s3) (snd ?s3)"
  let ?s5 = "slowPlay ?sg (fst ?s4) (snd ?s4)"
  let ?s6 = "protectBet P C ?sg (fst ?s5) (snd ?s5)"
  let ?m = "min (chips P) (needToCall ?sg)"
  have "ensureMinRaise P C ?sg (fst ?s6) = Call a"
    using assms by (simp add: chooseBotAction_def decisionBeforeMinRaise_stages Let_def)
  from ensureMinRaise_call[OF this] have "a = ?m"
  proof
    assume "fst ?s6 = Call a"
    hence "fst ?s5 = Call a" by (rule protectBet_call)
    hence "fst ?s4 = Call a" by (rule slowPlay_call)
    hence "fst ?s3 = Call a" by (rule overbetUpsize_call)
    hence "fst (bluffInjection P C ?sg (allInDefense P ?sg (fst ?s1)) (snd ?s1)) = Call a"
      by (simp add: decisionAfterBluff_stages Let_def)
    hence "allInDefense P ?sg (fst ?s1) = Call a" by (rule bluffInjection_call)
    from allInDefense_call[OF this] show ?thesis
    proof
      assume "fst ?s1 = Call a"
      thus ?thesis by (rule mainDecision_call)
    qed
  qed
  thus ?thesis by (simp add: sg_needToCall)
qed

section \<open>Two aces before the flop\<close>

lemma aces_strength: "strengthOf S (acesBB c) [] = Num 10"
  by (simp add: strengthOf_def acesBB_def preflopHandScore_def scoreOrdered_def base_def
      order_def Let_def)

lemma aces_shove:
  assumes "chips (acesBB c) / max 1 (pot C + needToCallOf (acesBB c) C) \<le> 1.2"
  shows "shove (acesBB c) C (computeSignals S (acesBB c) C []) = Some (Raise c)"
proof -
  let ?sg = "computeSignals S (acesBB c) C []"
  have low: "spr ?sg \<le> 1.2" using assms by (simp add: sg_spr)
  have strong: "strengthRatio ?sg = Num 1"
    by (simp add: sg_strengthRatio aces_strength)
  have stack: "chips (acesBB c) = c"
    by (simp add: acesBB_def)
  show ?thesis
    unfolding shove_def using low by (simp add: strong stack js_ge_def)
qed

lemma aces_after_bluff:
  assumes "chips (acesBB c) / max 1 (pot C + needToCallOf (acesBB c) C) \<le> 1.2"
  shows "decisionAfterBluff (acesBB c) C (computeSignals S (acesBB c) C []) g = (Raise c, g)"
  by (simp add: decisionAfterBluff_def mainDecision_def aces_shove[OF assms]
      allInDefense_Raise bluffInjection_Raise)

lemma aces_before_min_raise:
  assumes "chips (acesBB c) / max 1 (pot C + needToCallOf (acesBB c) C) \<le> 1.2"
  shows "decisionBeforeMinRaise (acesBB c) C (computeSignals S (acesBB c) C []) g = Raise c"
  by (simp add: decisionBeforeMinRaise_def aces_after_bluff[OF assms] overbetUpsize_preflop
      slowPlay_preflop protectBet_Raise sg_preflop)

lemma capped_spr:
  assumes "c \<le> 150"
  shows "chips (acesBB c) / max 1 (pot (cappedPot c) + needToCallOf (acesBB c) (cappedPot c))
           \<le> 1.2"
proof -
  have "chips (acesBB c) / max 1 (pot (cappedPot c) + needToCallOf (acesBB c) (cappedPot c))
          = c / 260"
    by (simp add: acesBB_def cappedPot_def needToCallOf_def)
  moreover have "c / 260 \<le> 1.2" using assms by simp
  ultimately show ?thesis by (simp only:)
qed

lemma unraised_spr:
  assumes "c \<le> 40"
  shows "chips (acesBB c) / max 1 (pot (unraisedPot c) + needToCallOf (acesBB c) (unraisedPot c))
           \<le> 1.2"
proof -
  have "chips (acesBB c) / max 1 (pot (unraisedPot c) + needToCallOf (acesBB c) (unraisedPot c))
          = c / 40"
    by (simp add: acesBB_def unraisedPot_def needToCallOf_def)
  moreover have "c / 40 \<le> 1.2" using assms by simp
  ultimately show ?thesis by (simp only:)
qed

lemma aces_150: "chooseBotAction S (acesBB 150) (cappedPot 150) [] g = Raise 150"
proof -
  have "chips (acesBB 150)
          / max 1 (pot (cappedPot 150) + needToCallOf (acesBB 150) (cappedPot 150)) \<le> 1.2"
    by (rule capped_spr) simp
  from aces_before_min_raise[OF this, of S g] show ?thesis
    by (simp add: chooseBotAction_def Let_def ensureMinRaise_def sg_needToCall needToCallOf_def)
       (simp add: acesBB_def cappedPot_def)
qed

lemma aces_20: "chooseBotAction S (acesBB 20) (unraisedPot 20) [] g = Raise 20"
proof -
  have "chips (acesBB 20)
          / max 1 (pot (unraisedPot 20) + needToCallOf (acesBB 20) (unraisedPot 20)) \<le> 1.2"
    by (rule unraised_spr) simp
  from aces_before_min_raise[OF this, of S g] show ?thesis
    by (simp add: chooseBotAction_def Let_def ensureMinRaise_def sg_needToCall needToCallOf_def)
       (simp add: acesBB_def unraisedPot_def)
qed

section \<open>Preflop scoring\<close>

lemma indexOf_nonneg_iff: "indexOf xs x \<ge> 0 \<longleftrightarrow> x \<in> set xs"
  by (induction xs) (auto simp: Let_def)

lemma indexOf_ge_minus1: "indexOf xs x \<ge> - 1"
  by (induction xs) (auto simp: Let_def)

lemma indexOf_inj: "indexOf xs x = indexOf xs y \<Longrightarrow> x \<in> set xs \<Longrightarrow> x = y"
proof (induction xs)
  case Nil
  then show ?case by simp
next
  case (Cons a xs)
  show ?case
  proof (cases "a = x")
    case True
    with Cons.prems show ?thesis
      using indexOf_ge_minus1[of xs y] by (auto simp: Let_def split: if_splits)
  next
    case False
    with Cons.prems have xin: "x \<in> set xs" by simp
    hence "indexOf xs x \<ge> 0" by (simp add: indexOf_nonneg_iff)
    with Cons.prems False have "indexOf xs x = indexOf xs y"
      by (auto simp: Let_def split: if_splits)
    with Cons.IH xin show ?thesis by simp
  qed
qed

lemma base_None_iff: "base r = None \<longleftrightarrow> r \<notin> set order"
  by (simp add: base_def order_def)

lemma same_index_cases:
  assumes "indexOf order r1 = indexOf order r2"
  shows "r1 = r2 \<or> (base r1 = None \<and> base r2 = None)"
proof (cases "r1 \<in> set order")
  case True
  with assms indexOf_inj show ?thesis by fastforce
next
  case False
  hence "\<not> indexOf order r1 \<ge> 0" by (simp add: indexOf_nonneg_iff)
  with assms have "\<not> indexOf order r2 \<ge> 0" by simp
  hence "r2 \<notin> set order" by (simp add: indexOf_nonneg_iff)
  with False show ?thesis by (simp add: base_None_iff)
qed

lemma scoreOrdered_same_index:
  assumes "i = indexOf order r1" "i = indexOf order r2"
  shows "scoreOrdered r1 s1 i r2 s2 i = scoreOrdered r2 s2 i r1 s1 i"
proof -
  from assms same_index_cases have "r1 = r2 \<or> (base r1 = None \<and> base r2 = None)" by simp
  then show ?thesis
  proof
    assume "r1 = r2"
    then show ?thesis
      by (cases "s1 = s2") (auto simp: scoreOrdered_def Let_def split: option.splits)
  next
    assume "base r1 = None \<and> base r2 = None"
    then show ?thesis by (simp add: scoreOrdered_def)
  qed
qed

text \<open>
  C7. Swapping the two hole cards does not change the preflop score: for all card codes
  \<open>A\<close> and \<open>B\<close>, \<open>preflopHandScore A B = preflopHandScore B A\<close>. The score is a
  function of the two codes alone.
\<close>

theorem preflopHandScore_symmetric:
  "preflopHandScore cardA cardB = preflopHandScore cardB cardA"
proof -
  let ?i1 = "indexOf order (fst cardA)" and ?i2 = "indexOf order (fst cardB)"
  consider "?i1 < ?i2" | "?i2 < ?i1" | "?i1 = ?i2" by linarith
  then show ?thesis
  proof cases
    case 1
    then show ?thesis by (simp add: preflopHandScore_def Let_def)
  next
    case 2
    then show ?thesis by (simp add: preflopHandScore_def Let_def)
  next
    case 3
    then show ?thesis
      using scoreOrdered_same_index[of ?i1 "fst cardA" "fst cardB" "snd cardA" "snd cardB"]
      by (simp add: preflopHandScore_def Let_def)
  qed
qed

section \<open>The minimum raise\<close>

text \<open>
  C1. A raise returned by \<open>chooseBotAction\<close> has an amount of at least
  \<open>needToCall + lastRaise\<close>. The check is the last step, applied to the decision that
  all overrides have produced: a raise below the minimum leaves as a call of
  \<open>min chips needToCall\<close> when something is owed, and as a check otherwise.
\<close>

theorem chooseBotAction_min_raise:
  "(chooseBotAction S P C cc g = Raise amount
      \<longrightarrow> needToCallOf P C + lastRaise C \<le> amount)
   \<and> (decisionBeforeMinRaise P C (computeSignals S P C cc) g = Raise a
        \<and> a < needToCallOf P C + lastRaise C
      \<longrightarrow> chooseBotAction S P C cc g
            = (if needToCallOf P C > 0 then Call (min (chips P) (needToCallOf P C))
               else Check))"
  by (auto simp: chooseBotAction_def Let_def ensureMinRaise_def sg_needToCall
      split: decision.splits if_splits)

theorem chooseBotAction_min_raise_witness:
  "chooseBotAction highCardSolver (acesBB 150) (cappedPot 150) [] coin = Raise 150
   \<and> needToCallOf (acesBB 150) (cappedPot 150) + lastRaise (cappedPot 150) \<le> 150
   \<and> decisionBeforeMinRaise (acesBB 50) (cappedPot 50)
        (computeSignals highCardSolver (acesBB 50) (cappedPot 50) []) coin = Raise 50
   \<and> 50 < needToCallOf (acesBB 50) (cappedPot 50) + lastRaise (cappedPot 50)
   \<and> chooseBotAction highCardSolver (acesBB 50) (cappedPot 50) [] coin = Call 50"
  using chooseBotAction_min_raise[of highCardSolver "acesBB 150" "cappedPot 150" "[]" coin 150 150]
    chooseBotAction_min_raise[of highCardSolver "acesBB 50" "cappedPot 50" "[]" coin 50 50]
    aces_150[of highCardSolver coin]
    aces_before_min_raise[OF capped_spr, of 50 highCardSolver coin]
  by (simp add: needToCallOf_def acesBB_def cappedPot_def)

section \<open>Board texture\<close>

subsection \<open>Counting\<close>

lemma bump_sum: "sum_list (map snd (bump k m)) = sum_list (map snd m) + 1"
  by (induction k m rule: bump.induct) auto

lemma bump_pos: "\<forall>c \<in> set (map snd m). c \<ge> 1 \<Longrightarrow> \<forall>c \<in> set (map snd (bump k m)). c \<ge> 1"
  by (induction k m rule: bump.induct) auto

lemma bump_keys: "fst ` set (bump k m) = insert k (fst ` set m)"
  by (induction k m rule: bump.induct) auto

lemma bump_distinct: "distinct (map fst m) \<Longrightarrow> distinct (map fst (bump k m))"
proof (induction k m rule: bump.induct)
  case (1 k)
  then show ?case by simp
next
  case (2 k k' c m)
  then show ?case by (auto simp: bump_keys)
qed

lemma count_fold:
  assumes "distinct (map fst m)" "\<forall>c \<in> set (map snd m). c \<ge> 1"
  shows "distinct (map fst (foldl (\<lambda>m k. bump k m) m ks))
       \<and> (\<forall>c \<in> set (map snd (foldl (\<lambda>m k. bump k m) m ks)). c \<ge> 1)
       \<and> set (map fst (foldl (\<lambda>m k. bump k m) m ks)) = set (map fst m) \<union> set ks
       \<and> sum_list (map snd (foldl (\<lambda>m k. bump k m) m ks)) = sum_list (map snd m) + length ks"
  using assms
proof (induction ks arbitrary: m)
  case Nil
  then show ?case by simp
next
  case (Cons k ks)
  have d: "distinct (map fst (bump k m))" using Cons.prems(1) by (rule bump_distinct)
  have p: "\<forall>c \<in> set (map snd (bump k m)). c \<ge> 1" using Cons.prems(2) by (rule bump_pos)
  from Cons.IH[OF d p] show ?case
    by (simp add: bump_keys bump_sum)
qed

lemma countKeys_props:
  "distinct (map fst (countKeys ks))"
  "\<forall>c \<in> set (Object_values (countKeys ks)). c \<ge> 1"
  "set (map fst (countKeys ks)) = set ks"
  "sum_list (Object_values (countKeys ks)) = length ks"
  using count_fold[of "[]" ks] by (simp_all add: countKeys_def Object_values_def)

lemma countKeys_length: "length (countKeys ks) = card (set ks)"
proof -
  have "length (countKeys ks) = length (map fst (countKeys ks))" by simp
  also have "\<dots> = card (set (map fst (countKeys ks)))"
    using countKeys_props(1)[of ks] by (simp only: distinct_card)
  finally show ?thesis by (simp only: countKeys_props(3))
qed

lemma max_list_bounds:
  assumes "\<forall>c \<in> set cs. c \<ge> (1::nat)" "cs \<noteq> []"
  shows "Math_max_list cs \<ge> 1 \<and> Math_max_list cs + (length cs - 1) \<le> sum_list cs"
  using assms
proof (induction cs)
  case Nil
  then show ?case by simp
next
  case (Cons c cs)
  show ?case
  proof (cases "cs = []")
    case True
    with Cons.prems show ?thesis by simp
  next
    case False
    with Cons have IH: "Math_max_list cs \<ge> 1 \<and> Math_max_list cs + (length cs - 1) \<le> sum_list cs"
      by simp
    have c1: "c \<ge> 1" using Cons.prems by simp
    have len: "length cs \<ge> 1" using False by (cases cs) auto
    have "sum_list cs \<ge> length cs"
      using Cons.prems(1) by (induction cs) (auto simp: Suc_le_eq add_strict_increasing le_imp_less_Suc)
    with IH c1 len show ?thesis by (auto simp: max_def)
  qed
qed

text \<open>The largest count of a key among \<open>n\<close> entries with \<open>k\<close> distinct keys.\<close>

lemma maxCount_bounds:
  assumes "ks \<noteq> []"
  shows "1 \<le> Math_max_list (Object_values (countKeys ks))"
    and "Math_max_list (Object_values (countKeys ks)) + card (set ks) \<le> length ks + 1"
proof -
  let ?cs = "Object_values (countKeys ks)"
  have ne: "?cs \<noteq> []"
    using assms countKeys_props(3)[of ks] by (auto simp: Object_values_def)
  have len: "length ?cs = card (set ks)"
    by (simp add: Object_values_def countKeys_length)
  from max_list_bounds[OF countKeys_props(2) ne]
  have b: "Math_max_list ?cs \<ge> 1" "Math_max_list ?cs + (length ?cs - 1) \<le> sum_list ?cs"
    by simp_all
  show "1 \<le> Math_max_list ?cs" by (rule b(1))
  have "card (set ks) \<ge> 1" using assms by (simp add: Suc_le_eq card_gt_0_iff)
  with b(2) len countKeys_props(4)[of ks]
  show "Math_max_list ?cs + card (set ks) \<le> length ks + 1" by simp
qed

subsection \<open>Runs\<close>

lemma runLoop_bound:
  "cur \<ge> 1 \<Longrightarrow> runLoop prev cur mx us \<le> max mx (cur + length (defined us))"
proof (induction us arbitrary: prev cur mx)
  case Nil
  then show ?case by simp
next
  case (Cons u us)
  show ?case
  proof (cases "isNext prev u")
    case True
    then obtain b where u: "u = Some b" by (cases prev; cases u) auto
    have "runLoop u (cur + 1) (if cur + 1 > mx then cur + 1 else mx) us
            \<le> max (if cur + 1 > mx then cur + 1 else mx) (cur + 1 + length (defined us))"
      by (rule Cons.IH) simp
    with True u show ?thesis by (simp add: Let_def max_def split: if_splits)
  next
    case False
    have "runLoop u 1 (if 1 > mx then 1 else mx) us
            \<le> max (if 1 > mx then 1 else mx) (1 + length (defined us))"
      by (rule Cons.IH) simp
    moreover have "length (defined us) \<le> length (defined (u # us))"
      by (cases u) auto
    ultimately show ?thesis using False Cons.prems
      by (simp add: Let_def max_def split: if_splits)
  qed
qed

lemma defined_map_Some: "defined (map Some xs @ ys) = xs @ defined ys"
  by (induction xs) auto

lemma set_defined: "set (defined xs) = {v. Some v \<in> set xs}"
  by (induction xs) (auto split: option.splits)

lemma maxConsecutive_bound:
  "maxConsecutiveOf (uniqueSorted xs) \<le> max 1 (card (set (defined xs)))"
proof -
  let ?L = "sort (remdups (defined xs))"
  let ?t = "if None \<in> set xs then [None] else []"
  have lenL: "length ?L = card (set (defined xs))"
    by (simp add: length_remdups_card_conv)
  have dt: "defined ?t = []" by simp
  show ?thesis
  proof (cases ?L)
    case Nil
    then have "uniqueSorted xs = ?t" by (simp add: uniqueSorted_def)
    then show ?thesis by (simp add: maxConsecutiveOf_def)
  next
    case (Cons l ls)
    then have u: "uniqueSorted xs = Some l # (map Some ls @ ?t)"
      by (simp add: uniqueSorted_def)
    have "runLoop (Some l) 1 1 (map Some ls @ ?t)
            \<le> max 1 (1 + length (defined (map Some ls @ ?t)))"
      by (rule runLoop_bound) simp
    also have "\<dots> = length ?L"
      unfolding defined_map_Some dt using Cons by simp
    finally show ?thesis
      unfolding u maxConsecutiveOf_def using lenL by simp
  qed
qed

lemma card_defined_le: "card (set (defined (map f xs))) \<le> card (set xs)"
proof -
  have "set (defined (map f xs)) \<subseteq> the ` (f ` set xs)"
  proof
    fix v assume "v \<in> set (defined (map f xs))"
    then have "Some v \<in> f ` set xs" by (simp add: set_defined)
    then have "the (Some v) \<in> the ` (f ` set xs)" by (rule imageI)
    then show "v \<in> the ` (f ` set xs)" by simp
  qed
  hence "card (set (defined (map f xs))) \<le> card (the ` (f ` set xs))"
    by (intro card_mono) auto
  also have "\<dots> \<le> card (f ` set xs)" by (intro card_image_le) auto
  also have "\<dots> \<le> card (set xs)" by (intro card_image_le) auto
  finally show ?thesis .
qed

lemma card_defined_snoc: "card (set (defined (xs @ [Some v]))) \<le> card (set (defined xs)) + 1"
proof -
  have "set (defined (xs @ [Some v])) = insert v (set (defined xs))"
    by (auto simp: set_defined)
  then show ?thesis by (simp add: card_insert_if)
qed

lemma texture_arith:
  fixes n y :: real
  assumes "3 \<le> n" "0 \<le> y" "y \<le> n - 1"
  shows "y / (n - 2) + (n - 1 - y) / (n - 1) \<le> 2"
proof -
  have a: "0 < n - 2" and b: "0 < n - 1" using assms(1) by simp_all
  have "y / (n - 2) \<le> y / (n - 1) + 1"
  proof -
    have "y / (n - 2) - y / (n - 1) = y / ((n - 2) * (n - 1))"
      using a b by (simp add: field_simps)
    also have "\<dots> \<le> (n - 1) / ((n - 2) * (n - 1))"
      using assms(3) a b by (intro divide_right_mono) simp_all
    also have "\<dots> = 1 / (n - 2)" using b by simp
    also have "\<dots> \<le> 1" using assms(1) by simp
    finally show ?thesis by simp
  qed
  moreover have "(n - 1 - y) / (n - 1) = 1 - y / (n - 1)"
    using b by (simp add: diff_divide_distrib)
  ultimately show ?thesis by simp
qed

lemma pairRisk_eq:
  assumes "length bd \<ge> 3"
  shows "pairRisk bd
           = (real (Math_max_list (Object_values (countKeys (map fst bd)))) - 1)
               / (real (length bd) - 1)"
proof -
  have "map fst bd \<noteq> []" using assms by auto
  from maxCount_bounds(1)[OF this] show ?thesis
    by (auto simp: pairRisk_def Let_def)
qed

lemma pairRisk_bounds:
  assumes "length bd \<ge> 3"
  shows "0 \<le> pairRisk bd"
    and "pairRisk bd \<le> (real (length bd) - real (card (set (map fst bd))))
                             / (real (length bd) - 1)"
proof -
  let ?M = "Math_max_list (Object_values (countKeys (map fst bd)))"
  have ne: "map fst bd \<noteq> []" using assms by auto
  have M1: "1 \<le> ?M" by (rule maxCount_bounds(1)[OF ne])
  have Mk: "?M + card (set (map fst bd)) \<le> length bd + 1"
    using maxCount_bounds(2)[OF ne] by simp
  have den: "0 < real (length bd) - 1" using assms by simp
  show "0 \<le> pairRisk bd"
    unfolding pairRisk_eq[OF assms] using M1 den by simp
  have "real ?M + real (card (set (map fst bd))) \<le> real (length bd) + 1"
    using Mk by (metis of_nat_1 of_nat_add of_nat_le_iff)
  hence "real ?M - 1 \<le> real (length bd) - real (card (set (map fst bd)))" by simp
  thus "pairRisk bd \<le> (real (length bd) - real (card (set (map fst bd))))
                             / (real (length bd) - 1)"
    unfolding pairRisk_eq[OF assms] using den by (simp add: divide_right_mono)
qed

lemma suitRisk_bounds:
  assumes "length bd \<ge> 3"
  shows "0 \<le> suitRisk bd" and "suitRisk bd \<le> 1"
proof -
  let ?ks = "map (normSuit \<circ> snd) bd"
  let ?M = "Math_max_list (Object_values (countKeys ?ks))"
  have ne: "?ks \<noteq> []" using assms by auto
  have M1: "1 \<le> ?M" by (rule maxCount_bounds(1)[OF ne])
  have "card (set ?ks) \<ge> 1" using ne by (simp add: Suc_le_eq card_gt_0_iff)
  with maxCount_bounds(2)[OF ne] have Mn: "?M \<le> length bd" by simp
  have den: "0 < real (length bd) - 1" using assms by simp
  show "0 \<le> suitRisk bd"
    unfolding suitRisk_def Let_def using M1 den by simp
  have "real ?M - 1 \<le> real (length bd) - 1" using Mn by simp
  thus "suitRisk bd \<le> 1"
    unfolding suitRisk_def Let_def using den by simp
qed

lemma connectedness_bounds:
  assumes "length bd \<ge> 3"
  shows "0 \<le> connectedness bd"
    and "connectedness bd \<le> (real (card (set (map fst bd))) - 1)
                                  / (real (length bd) - 2)"
proof -
  let ?ranks = "map (rankMap \<circ> fst) bd"
  let ?rfs = "if Some 14 \<in> set ?ranks then ?ranks @ [Some 1] else ?ranks"
  let ?m = "maxConsecutiveOf (uniqueSorted ?rfs)"
  let ?k = "card (set (map fst bd))"
  have den: "0 < real (length bd) - 2" using assms by simp
  have k1: "?k \<ge> 1" using assms by (simp add: Suc_le_eq card_gt_0_iff) auto
  have "card (set (defined ?ranks)) \<le> ?k"
    using card_defined_le[of rankMap "map fst bd"] by simp
  moreover have "card (set (defined ?rfs)) \<le> card (set (defined ?ranks)) + 1"
    using card_defined_snoc[of ?ranks 1] by simp
  ultimately have "card (set (defined ?rfs)) \<le> ?k + 1" by simp
  with maxConsecutive_bound[of ?rfs] have m: "?m \<le> ?k + 1" by simp
  have cdef: "connectedness bd
                = (if ?m \<ge> 3 then max 0 ((real ?m - 2) / (real (length bd) - 2)) else 0)"
    by (simp add: connectedness_def Let_def)
  show "0 \<le> connectedness bd" unfolding cdef by simp
  have nonneg: "0 \<le> (real ?k - 1) / (real (length bd) - 2)"
    using k1 den by simp
  have "real ?m - 2 \<le> real ?k - 1" using m by simp
  hence "(real ?m - 2) / (real (length bd) - 2) \<le> (real ?k - 1) / (real (length bd) - 2)"
    using den by (simp add: divide_right_mono)
  with nonneg show "connectedness bd \<le> (real ?k - 1) / (real (length bd) - 2)"
    unfolding cdef by simp
qed

lemma texture_sum_bounds:
  assumes "length bd \<ge> 3"
  shows "0 \<le> connectedness bd + suitRisk bd + pairRisk bd"
    and "connectedness bd + suitRisk bd + pairRisk bd \<le> 3"
proof -
  let ?n = "real (length bd)" and ?k = "real (card (set (map fst bd)))"
  show "0 \<le> connectedness bd + suitRisk bd + pairRisk bd"
    using connectedness_bounds(1)[OF assms] suitRisk_bounds(1)[OF assms]
      pairRisk_bounds(1)[OF assms] by simp
  have "card (set (map fst bd)) \<ge> 1" using assms by (simp add: Suc_le_eq card_gt_0_iff) auto
  hence k1: "0 \<le> ?k - 1" by simp
  have "card (set (map fst bd)) \<le> length bd"
    using card_length[of "map fst bd"] by simp
  hence kn: "?k - 1 \<le> ?n - 1" by simp
  have n3: "3 \<le> ?n" using assms by simp
  have "connectedness bd + pairRisk bd
          \<le> (?k - 1) / (?n - 2) + (?n - ?k) / (?n - 1)"
    using connectedness_bounds(2)[OF assms] pairRisk_bounds(2)[OF assms] by simp
  also have "\<dots> = (?k - 1) / (?n - 2) + (?n - 1 - (?k - 1)) / (?n - 1)" by simp
  also have "\<dots> \<le> 2" by (rule texture_arith[OF n3 k1 kn])
  finally show "connectedness bd + suitRisk bd + pairRisk bd \<le> 3"
    using suitRisk_bounds(2)[OF assms] by simp
qed

text \<open>
  C8. A board of fewer than three cards has texture 0, and the board context that
  \<open>chooseBotAction\<close> computes stays neutral: no top pair, no overpair, no draw, texture
  risk 0. For a board of three or more cards the texture risk is the average of the
  connectedness, suitedness and pairing scores, and it lies between 0 and 1.
\<close>

theorem evaluateBoardTexture_average:
  "(length cc < 3 \<longrightarrow>
      evaluateBoardTexture cc = 0
      \<and> board (computeSignals S P C cc)
          = \<lparr> topPair = False, overPair = False, drawChance = False, textureRisk = 0 \<rparr>)
   \<and> (length cc \<ge> 3 \<longrightarrow>
        evaluateBoardTexture cc = (connectedness cc + suitRisk cc + pairRisk cc) / 3
        \<and> 0 \<le> evaluateBoardTexture cc \<and> evaluateBoardTexture cc \<le> 1)"
proof (intro conjI impI)
  assume "length cc < 3"
  then show "evaluateBoardTexture cc = 0" by (simp add: evaluateBoardTexture_def)
next
  assume "length cc < 3"
  then show "board (computeSignals S P C cc)
          = \<lparr> topPair = False, overPair = False, drawChance = False, textureRisk = 0 \<rparr>"
    by (simp add: computeSignals_def Let_def boardContext_def)
next
  assume a: "length cc \<ge> 3"
  from texture_sum_bounds[OF a]
  show e: "evaluateBoardTexture cc = (connectedness cc + suitRisk cc + pairRisk cc) / 3"
    using a by (simp add: evaluateBoardTexture_def Let_def)
  from texture_sum_bounds[OF a] e
  show "0 \<le> evaluateBoardTexture cc" "evaluateBoardTexture cc \<le> 1" by simp_all
qed

lemma t789: "connectedness flop789 + suitRisk flop789 + pairRisk flop789 = 2"
  by (simp add: flop789_def connectedness_def suitRisk_def pairRisk_def Let_def rankMap_def
     uniqueSorted_def maxConsecutiveOf_def countKeys_def Object_values_def normSuit_def suitMap_def)

theorem evaluateBoardTexture_average_witness:
  "length twoCards < 3
   \<and> evaluateBoardTexture twoCards = 0
   \<and> board (computeSignals highCardSolver (acesBB 150) (cappedPot 150) twoCards)
       = \<lparr> topPair = False, overPair = False, drawChance = False, textureRisk = 0 \<rparr>
   \<and> length flop789 \<ge> 3
   \<and> evaluateBoardTexture flop789 = 2 / 3
   \<and> 0 \<le> evaluateBoardTexture flop789 \<and> evaluateBoardTexture flop789 \<le> 1"
proof -
  have l2: "length twoCards = 2" by (simp add: twoCards_def)
  have l3: "length flop789 = 3" by (simp add: flop789_def)
  show ?thesis
    using evaluateBoardTexture_average[of twoCards highCardSolver "acesBB 150" "cappedPot 150"]
      evaluateBoardTexture_average[of flop789 highCardSolver "acesBB 150" "cappedPot 150"]
    by (simp add: l2 l3 t789)
qed

section \<open>A stack of at most the big blind\<close>

text \<open>
  C10. A player whose stack is at most the big blind may not raise (\<open>canRaise\<close> is
  false): the branch logic never returns a raise, the bluff injection changes nothing, and
  the decision after the bluff injection is a raise only as the shove of the whole stack.
  A raise returned by \<open>chooseBotAction\<close> comes from the shove or, after the flop with no
  bet to call, from the protect bet.
\<close>

theorem short_stack_raises:
  assumes "chips P \<le> bigBlind C"
  shows "\<not> canRaise (computeSignals S P C cc)
       \<and> (\<forall>g' a. fst (branchDecision P C (computeSignals S P C cc) g') \<noteq> Raise a)
       \<and> (\<forall>d g'. bluffInjection P C (computeSignals S P C cc) d g' = (d, g'))
       \<and> (\<forall>a. fst (decisionAfterBluff P C (computeSignals S P C cc) g) = Raise a
              \<longrightarrow> shove P C (computeSignals S P C cc) = Some (Raise a) \<and> a = chips P)
       \<and> (\<forall>a. chooseBotAction S P C cc g = Raise a
              \<longrightarrow> shove P C (computeSignals S P C cc) = Some (Raise (chips P))
                  \<or> (\<not> preflop (computeSignals S P C cc) \<and> currentBet C = 0
                      \<and> (\<exists>u. a = max (lastRaise C)
                                   (protectionBetSize P C (computeSignals S P C cc) u))))"
proof -
  let ?sg = "computeSignals S P C cc"
  have nc: "\<not> canRaise ?sg" using assms by (simp add: sg_canRaise)
  have ab: "shove P C ?sg = Some (Raise a) \<and> a = chips P"
    if "fst (decisionAfterBluff P C ?sg g) = Raise a" for a
    using decisionAfterBluff_raise[OF nc that] shove_cases[of P C ?sg] by auto
  have fin: "shove P C ?sg = Some (Raise (chips P))
              \<or> (\<not> preflop ?sg \<and> currentBet C = 0
                  \<and> (\<exists>u. a = max (lastRaise C) (protectionBetSize P C ?sg u)))"
    if r: "chooseBotAction S P C cc g = Raise a" for a
  proof -
    let ?s3 = "decisionAfterBluff P C ?sg g"
    let ?s4 = "overbetUpsize P C ?sg (fst ?s3) (snd ?s3)"
    let ?s5 = "slowPlay ?sg (fst ?s4) (snd ?s4)"
    from r have "decisionBeforeMinRaise P C ?sg g = Raise a"
      by (simp add: chooseBotAction_def Let_def ensureMinRaise_raise)
    hence "fst (protectBet P C ?sg (fst ?s5) (snd ?s5)) = Raise a"
      by (simp add: decisionBeforeMinRaise_stages Let_def)
    from protectBet_raise[OF this] show ?thesis
    proof
      assume "fst ?s5 = Raise a"
      hence "fst ?s4 = Raise a" by (rule slowPlay_raise)
      hence "isRaise (fst ?s3)" by (rule overbetUpsize_raise)
      then obtain a0 where "fst ?s3 = Raise a0"
        by (cases "fst ?s3") (auto simp: isRaise_def)
      from ab[OF this] show ?thesis by simp
    next
      assume "\<not> preflop ?sg \<and> currentBet C = 0 \<and> fst ?s5 = Check
           \<and> (\<exists>u. a = max (lastRaise C) (protectionBetSize P C ?sg u))"
      then show ?thesis by blast
    qed
  qed
  from nc ab fin branchDecision_no_raise[OF nc] bluffInjection_off[OF nc]
  show ?thesis by blast
qed

theorem short_stack_raises_witness:
  "chips (acesBB 20) \<le> bigBlind (unraisedPot 20)
   \<and> \<not> canRaise (computeSignals highCardSolver (acesBB 20) (unraisedPot 20) [])
   \<and> fst (decisionAfterBluff (acesBB 20) (unraisedPot 20)
            (computeSignals highCardSolver (acesBB 20) (unraisedPot 20) []) coin) = Raise 20
   \<and> shove (acesBB 20) (unraisedPot 20)
        (computeSignals highCardSolver (acesBB 20) (unraisedPot 20) []) = Some (Raise 20)
   \<and> chooseBotAction highCardSolver (acesBB 20) (unraisedPot 20) [] coin = Raise 20"
proof -
  have small: "chips (acesBB 20) \<le> bigBlind (unraisedPot 20)"
    by (simp add: acesBB_def unraisedPot_def)
  from short_stack_raises[OF small, of highCardSolver "[]" coin]
    aces_after_bluff[OF unraised_spr, of 20 highCardSolver coin]
    aces_20[of highCardSolver coin] small
  show ?thesis by simp
qed

section \<open>A player without chips\<close>

lemma roundTo10_nonpos: "x \<le> 0 \<Longrightarrow> roundTo10 x \<le> 0"
proof -
  assume "x \<le> 0"
  hence "x / 10 + 1 / 2 < 1" by simp
  hence "\<lfloor>x / 10 + 1 / 2\<rfloor> \<le> 0" by (simp add: floor_le_iff)
  hence "(of_int \<lfloor>x / 10 + 1 / 2\<rfloor> :: real) \<le> 0" by simp
  thus ?thesis by (simp add: roundTo10_def Math_round_def mult_le_0_iff)
qed

lemma broke_sizes:
  assumes "chips P = 0"
  shows "protectionBetSize P C sg u \<le> 0" and "overBetSize P C sg u \<le> 0"
proof -
  have m: "min (chips P) x \<le> 0" for x :: real
    using assms by (simp add: min.coboundedI1)
  show "protectionBetSize P C sg u \<le> 0"
    unfolding protectionBetSize_def Let_def by (rule roundTo10_nonpos) (rule m)
  show "overBetSize P C sg u \<le> 0"
    unfolding overBetSize_def Let_def by (rule roundTo10_nonpos) (rule m)
qed

lemma broke_branch:
  assumes "\<not> canRaise sg" "stackRatio sg = PosInf" "needToCall sg > 0"
  shows "branchDecision P C sg g = (Fold, g)"
  using assms by (simp add: branchDecision_def oddsJustified_def)

lemma broke_main:
  assumes "chips P = 0" "\<not> canRaise sg" "stackRatio sg = PosInf" "needToCall sg > 0"
  shows "fst (mainDecision P C sg g) = Raise 0 \<or> fst (mainDecision P C sg g) = Fold"
  using assms shove_cases[of P C sg] broke_branch[OF assms(2,3,4), of P C g]
  by (auto simp: mainDecision_def)

lemma broke_allInDefense:
  assumes "chips P = 0" "needToCall sg > 0" "d = Raise 0 \<or> d = Fold"
  shows "allInDefense P sg d = Raise 0 \<or> allInDefense P sg d = Fold
         \<or> allInDefense P sg d = Call 0"
  using assms by (auto simp: allInDefense_def Let_def)

lemma broke_overbet:
  assumes "chips P = 0" "d = Raise 0 \<or> d = Fold \<or> d = Call 0"
  shows "fst (overbetUpsize P C sg d g) = Raise 0 \<or> fst (overbetUpsize P C sg d g) = Fold
         \<or> fst (overbetUpsize P C sg d g) = Call 0"
proof -
  have m: "max 0 (overBetSize P C sg u) = 0" for u
    using broke_sizes(2)[OF assms(1), of C sg u] by simp
  from assms(2) show ?thesis
    by (elim disjE) (simp_all add: overbetUpsize_Raise overbetUpsize_other isRaise_def m)
qed

lemma broke_slowPlay:
  assumes "d = Raise 0 \<or> d = Fold \<or> d = Call 0"
  shows "fst (slowPlay sg d g) = Raise 0 \<or> fst (slowPlay sg d g) = Fold
         \<or> fst (slowPlay sg d g) = Call 0 \<or> fst (slowPlay sg d g) = Check"
  using assms by (elim disjE) (simp_all add: slowPlay_fst)

lemma broke_protectBet:
  assumes "chips P = 0" "lastRaise C \<ge> 0"
    "d = Raise 0 \<or> d = Fold \<or> d = Call 0 \<or> d = Check"
  shows "fst (protectBet P C sg d g) = Raise 0 \<or> fst (protectBet P C sg d g) = Fold
         \<or> fst (protectBet P C sg d g) = Call 0 \<or> fst (protectBet P C sg d g) = Check
         \<or> fst (protectBet P C sg d g) = Raise (lastRaise C)"
proof -
  have m: "max (lastRaise C) (protectionBetSize P C sg u) = lastRaise C" for u
    using broke_sizes(1)[OF assms(1), of C sg u] assms(2) by simp
  from assms(3) show ?thesis
    by (elim disjE) (simp_all add: protectBet_fst m)
qed

lemma broke_ensureMinRaise:
  assumes "chips P = 0" "lastRaise C \<ge> 0" "needToCall sg > 0"
    "d = Raise 0 \<or> d = Fold \<or> d = Call 0 \<or> d = Check \<or> d = Raise (lastRaise C)"
  shows "ensureMinRaise P C sg d = Fold \<or> ensureMinRaise P C sg d = Call 0
         \<or> ensureMinRaise P C sg d = Check"
  using assms by (auto simp: ensureMinRaise_def Let_def)

text \<open>There is no special case for the empty stack: the stack ratio is \<open>+\<infinity>\<close>, it
  fails both comparisons, and the branch logic folds.\<close>

lemma zero_stack_branch:
  assumes "chips P = 0" "needToCallOf P C > 0" "bigBlind C \<ge> 0"
  shows "stackRatio (computeSignals S P C cc) = PosInf"
    and "branchDecision P C (computeSignals S P C cc) g = (Fold, g)"
proof -
  let ?sg = "computeSignals S P C cc"
  have nc: "\<not> canRaise ?sg" using assms(1,3) by (simp add: sg_canRaise)
  show sr: "stackRatio ?sg = PosInf" using assms(1,2) by (simp add: sg_stackRatio js_div_def)
  have ntc: "needToCall ?sg > 0" using assms(2) by (simp add: sg_needToCall)
  show "branchDecision P C ?sg g = (Fold, g)" by (rule broke_branch[OF nc sr ntc])
qed

lemma broke_slowPlay_check:
  assumes "d = Raise 0 \<or> d = Fold \<or> d = Call 0" "fst (slowPlay sg d g) = Check"
  shows "\<not> preflop sg \<and> js_ge (strengthRatio sg) (Num 0.9) \<and> d = Raise 0"
  using assms by (auto simp: slowPlay_fst isRaise_def split: if_splits)

lemma protectBet_check: "fst (protectBet P C sg d g) = Check \<Longrightarrow> d = Check"
  by (auto simp: protectBet_fst split: if_splits)

lemma ensureMinRaise_check:
  "needToCall sg > 0 \<Longrightarrow> ensureMinRaise P C sg d = Check \<Longrightarrow> d = Check"
  by (cases d) (auto simp: ensureMinRaise_def Let_def split: if_splits)

text \<open>
  A player with no chips who faces a bet, with a big blind and a last raise that are not
  negative: the decision returned is a fold or a call of 0, the whole stack, unless the
  slow play has turned the shove of 0 into a check.
\<close>

lemma zero_stack_outcomes:
  assumes "chips P = 0" "needToCallOf P C > 0" "bigBlind C \<ge> 0" "lastRaise C \<ge> 0"
  shows "chooseBotAction S P C cc g = Fold
       \<or> chooseBotAction S P C cc g = Call 0
       \<or> (chooseBotAction S P C cc g = Check
           \<and> \<not> preflop (computeSignals S P C cc)
           \<and> js_ge (strengthRatio (computeSignals S P C cc)) (Num 0.9)
           \<and> shove P C (computeSignals S P C cc) = Some (Raise 0))"
proof -
  let ?sg = "computeSignals S P C cc"
  have nc: "\<not> canRaise ?sg" using assms(1,3) by (simp add: sg_canRaise)
  have sr: "stackRatio ?sg = PosInf" using assms(1,2) by (simp add: sg_stackRatio js_div_def)
  have ntc: "needToCall ?sg > 0" using assms(2) by (simp add: sg_needToCall)
  let ?s1 = "mainDecision P C ?sg g"
  let ?d2 = "allInDefense P ?sg (fst ?s1)"
  let ?s3 = "decisionAfterBluff P C ?sg g"
  let ?s4 = "overbetUpsize P C ?sg (fst ?s3) (snd ?s3)"
  let ?s5 = "slowPlay ?sg (fst ?s4) (snd ?s4)"
  let ?s6 = "protectBet P C ?sg (fst ?s5) (snd ?s5)"
  have d1: "fst ?s1 = Raise 0 \<or> fst ?s1 = Fold"
    by (rule broke_main[OF assms(1) nc sr ntc])
  have d2: "?d2 = Raise 0 \<or> ?d2 = Fold \<or> ?d2 = Call 0"
    by (rule broke_allInDefense[OF assms(1) ntc d1])
  have "fst ?s3 = ?d2"
    by (simp add: decisionAfterBluff_stages Let_def bluffInjection_off[OF nc])
  with d2 have d3: "fst ?s3 = Raise 0 \<or> fst ?s3 = Fold \<or> fst ?s3 = Call 0" by simp
  have d4: "fst ?s4 = Raise 0 \<or> fst ?s4 = Fold \<or> fst ?s4 = Call 0"
    by (rule broke_overbet[OF assms(1) d3])
  have d5: "fst ?s5 = Raise 0 \<or> fst ?s5 = Fold \<or> fst ?s5 = Call 0 \<or> fst ?s5 = Check"
    by (rule broke_slowPlay[OF d4])
  have d6: "fst ?s6 = Raise 0 \<or> fst ?s6 = Fold \<or> fst ?s6 = Call 0 \<or> fst ?s6 = Check
            \<or> fst ?s6 = Raise (lastRaise C)"
    by (rule broke_protectBet[OF assms(1,4) d5])
  have c: "chooseBotAction S P C cc g = ensureMinRaise P C ?sg (fst ?s6)"
    by (simp add: chooseBotAction_def decisionBeforeMinRaise_stages Let_def)
  with broke_ensureMinRaise[OF assms(1,4) ntc d6]
  have o: "chooseBotAction S P C cc g = Fold \<or> chooseBotAction S P C cc g = Call 0
           \<or> chooseBotAction S P C cc g = Check" by simp
  have "\<not> preflop ?sg \<and> js_ge (strengthRatio ?sg) (Num 0.9)
          \<and> shove P C ?sg = Some (Raise 0)"
    if k: "chooseBotAction S P C cc g = Check"
  proof -
    from k c have "fst ?s6 = Check" by (simp add: ensureMinRaise_check[OF ntc])
    hence "fst ?s5 = Check" by (rule protectBet_check)
    from broke_slowPlay_check[OF d4 this]
    have s: "\<not> preflop ?sg" "js_ge (strengthRatio ?sg) (Num 0.9)" "fst ?s4 = Raise 0"
      by simp_all
    from overbetUpsize_raise[OF s(3)] d3 have "fst ?s3 = Raise 0"
      by (auto simp: isRaise_def)
    from decisionAfterBluff_raise[OF nc this] s(1,2) show ?thesis by simp
  qed
  with o show ?thesis by blast
qed

section \<open>A straight flush facing a bet\<close>

lemma random_low: "Math_random low = (1 / 10, low)"
  by (simp add: Math_random_def low_def)

lemma sf_strength: "strengthOf straightFlushSolver P heartsFlop = Num 9"
  by (simp add: strengthOf_def heartsFlop_def straightFlushSolver_def)

lemma sf_signals:
  fixes c :: real
  defines "sg \<equiv> computeSignals straightFlushSolver (flushHero c) (flopBet c) heartsFlop"
  shows "needToCall sg = 40" "spr sg = c / 140" "\<not> preflop sg" "strengthRatio sg = Num 0.9"
proof -
  show "needToCall sg = 40"
    by (simp add: sg_def sg_needToCall needToCallOf_def flushHero_def flopBet_def)
  show "spr sg = c / 140"
    by (simp add: sg_def sg_spr needToCallOf_def flushHero_def flopBet_def)
  show "\<not> preflop sg"
    by (simp add: sg_def sg_preflop heartsFlop_def)
  show "strengthRatio sg = Num 0.9"
    by (simp add: sg_def sg_strengthRatio sf_strength)
qed

lemma sf_before_min_raise:
  assumes "c \<le> 100"
  shows "decisionBeforeMinRaise (flushHero c) (flopBet c)
            (computeSignals straightFlushSolver (flushHero c) (flopBet c) heartsFlop) low = Check"
proof -
  let ?P = "flushHero c" and ?C = "flopBet c"
  let ?sg = "computeSignals straightFlushSolver ?P ?C heartsFlop"
  note s = sf_signals[of c]
  have "spr ?sg \<le> 1.2" using assms s(2) by simp
  hence sh: "shove ?P ?C ?sg = Some (Raise (chips ?P))"
    by (simp add: shove_def s js_ge_def)
  have s3: "decisionAfterBluff ?P ?C ?sg low = (Raise (chips ?P), low)"
    by (simp add: decisionAfterBluff_def mainDecision_def sh allInDefense_Raise bluffInjection_Raise)
  have s4: "overbetUpsize ?P ?C ?sg (Raise (chips ?P)) low = (Raise (chips ?P), low)"
    by (simp add: overbetUpsize_def s js_ge_def)
  have s5: "slowPlay ?sg (Raise (chips ?P)) low = (Check, low)"
    by (simp add: slowPlay_def s js_ge_def isRaise_def random_low)
  have s6: "protectBet ?P ?C ?sg Check low = (Check, low)"
    by (simp add: protectBet_def s) (simp add: flopBet_def)
  show ?thesis
    by (simp add: decisionBeforeMinRaise_def s3 s4 s5 s6)
qed

lemma sf_check:
  assumes "c \<le> 100"
  shows "chooseBotAction straightFlushSolver (flushHero c) (flopBet c) heartsFlop low = Check"
  by (simp add: chooseBotAction_def Let_def sf_before_min_raise[OF assms] ensureMinRaise_def)

lemma sf_call_0:
  "chooseBotAction straightFlushSolver (flushHero 0) (flopBet 0) heartsFlop coin = Call 0"
proof -
  let ?P = "flushHero 0" and ?C = "flopBet 0"
  let ?sg = "computeSignals straightFlushSolver ?P ?C heartsFlop"
  note s = sf_signals[of 0]
  have c0: "chips ?P = 0" by (simp add: flushHero_def)
  have "spr ?sg \<le> 1.2" using s(2) by simp
  hence sh: "shove ?P ?C ?sg = Some (Raise 0)"
    by (simp add: shove_def s js_ge_def c0)
  have s3: "decisionAfterBluff ?P ?C ?sg coin = (Raise 0, coin)"
    by (simp add: decisionAfterBluff_def mainDecision_def sh allInDefense_Raise
        bluffInjection_Raise)
  have s4: "overbetUpsize ?P ?C ?sg (Raise 0) coin = (Raise 0, coin)"
    by (simp add: overbetUpsize_def s js_ge_def)
  have rc: "Math_random coin = (1 / 2, coin)" by (simp add: Math_random_def coin_def)
  have s5: "slowPlay ?sg (Raise 0) coin = (Raise 0, coin)"
    by (simp add: slowPlay_def s js_ge_def isRaise_def rc)
  have "decisionBeforeMinRaise ?P ?C ?sg coin = Raise 0"
    by (simp add: decisionBeforeMinRaise_def s3 s4 s5 protectBet_Raise)
  then show ?thesis
    by (simp add: chooseBotAction_def Let_def ensureMinRaise_def s c0) (simp add: flopBet_def)
qed

text \<open>
  C4. The claim: no check is returned while a bet is to be called. The code at the
  failing input: with 40 to call, a stack of 100 and a straight flush, the shove is
  turned into a check by the slow play, and the check is returned.
\<close>

theorem slow_play_checks_facing_bet:
  "needToCallOf (flushHero 100) (flopBet 100) = 40
   \<and> chooseBotAction straightFlushSolver (flushHero 100) (flopBet 100) heartsFlop low = Check"
  using sf_check[of 100] by (simp add: needToCallOf_def flushHero_def flopBet_def)

text \<open>
  C6. The claim: a player with no chips who faces a bet folds or is all-in, and the
  stack ratio that is not finite leads to no other action. The code at the failing
  input: with 40 to call, no chips and a straight flush, the stack ratio is \<open>+\<infinity>\<close>,
  the shove of 0 is turned into a check by the slow play, and the check is returned.
\<close>

theorem zero_stack_checks_facing_bet:
  "chips (flushHero 0) = 0
   \<and> needToCallOf (flushHero 0) (flopBet 0) = 40
   \<and> stackRatio (computeSignals straightFlushSolver (flushHero 0) (flopBet 0) heartsFlop) = PosInf
   \<and> chooseBotAction straightFlushSolver (flushHero 0) (flopBet 0) heartsFlop low = Check"
  using sf_check[of 0]
  by (simp add: sg_stackRatio js_div_def needToCallOf_def flushHero_def flopBet_def)

section \<open>The cap on raises\<close>

text \<open>
  C3. The claim: with \<open>raisesThisRound\<close> at the cap no raise is returned. The code at
  the failing input: after three raises the big blind with two aces and a stack of 150
  shoves, and the raise of 150 is returned.
\<close>

theorem shove_at_raise_cap:
  "raisesThisRound (cappedPot 150) = MAX_RAISES_PER_ROUND
   \<and> \<not> canRaise (computeSignals highCardSolver (acesBB 150) (cappedPot 150) [])
   \<and> chooseBotAction highCardSolver (acesBB 150) (cappedPot 150) [] coin = Raise 150"
  using aces_150[of highCardSolver coin]
  by (simp add: sg_canRaise cappedPot_def MAX_RAISES_PER_ROUND_def)

section \<open>A raise above the stack\<close>

lemma t9_strength: "strengthOf S (tenNineBB c) [] = Num 6"
  by (simp add: strengthOf_def tenNineBB_def preflopHandScore_def scoreOrdered_def base_def
      order_def Let_def)

lemma t9_active: "active (limpedPot c) = [button, smallBlindCaller, tenNineBB c]"
  by (simp add: active_def limpedPot_def button_def smallBlindCaller_def tenNineBB_def)

lemma t9_next:
  "nextActive [button, smallBlindCaller, tenNineBB c] 2 = Some button"
  by (simp add: nextActive_def arrayAt_def js_rem_def button_def upto.simps)

lemma t9_position: "positionFactorOf (tenNineBB c) (limpedPot c) = 1"
proof -
  have ps: "players (limpedPot c) = [button, smallBlindCaller, tenNineBB c]"
    by (simp add: limpedPot_def)
  have bb: "findIndex bigBlindSeat [button, smallBlindCaller, tenNineBB c] = 2"
    by (simp add: button_def smallBlindCaller_def tenNineBB_def)
  have ph: "currentPhaseIndex (limpedPot c) = 0" by (simp add: limpedPot_def)
  have si: "findIndex (samePlayer (tenNineBB c)) [button, smallBlindCaller, tenNineBB c] = 2"
    by (simp add: samePlayer_def button_def smallBlindCaller_def tenNineBB_def)
  have ri: "findIndex (samePlayer button) [button, smallBlindCaller, tenNineBB c] = 0"
    by (simp add: samePlayer_def)
  show ?thesis
    by (simp only: positionFactorOf_def Let_def t9_active ph ps bb t9_next si ri
          if_True option.case)
       (simp add: js_rem_def samePlayer_def)
qed

lemma t9_opponents: "opponentsOf (tenNineBB c) (limpedPot c) = [button, smallBlindCaller]"
  by (simp add: opponentsOf_def samePlayer_def limpedPot_def button_def smallBlindCaller_def
      tenNineBB_def)

lemma t9_tune:
  "tune (computeSignals S (tenNineBB c) (limpedPot c) [])
     = \<lparr> aggressiveness = 1.3, raiseThreshold = 5.7, bluffChance = 0 \<rparr>"
proof -
  have b: "baseTuning True 1 2 = \<lparr> aggressiveness = 1.3, raiseThreshold = 5.7, bluffChance = 0 \<rparr>"
    by (simp add: baseTuning_def Let_def OPPONENT_THRESHOLD_def AGG_FACTOR_def THRESHOLD_FACTOR_def)
  have w: "weight [button, smallBlindCaller] = 0"
    by (simp add: weight_def avgHands_def MIN_HANDS_FOR_WEIGHT_def button_def
        smallBlindCaller_def noStats_def)
  have v: "avgVPIP [button, smallBlindCaller] = 1 / 2"
    by (simp add: avgVPIP_def button_def smallBlindCaller_def noStats_def)
  have a: "avgAgg [button, smallBlindCaller] = 1"
    by (simp add: avgAgg_def button_def smallBlindCaller_def noStats_def)
  have o: "opponentTuning [button, smallBlindCaller] bc
             \<lparr> aggressiveness = 1.3, raiseThreshold = 5.7, bluffChance = 0 \<rparr>
           = \<lparr> aggressiveness = 1.3, raiseThreshold = 5.7, bluffChance = 0 \<rparr>" for bc
    by (simp add: opponentTuning_def Let_def w v a)
  show ?thesis
    by (simp add: computeSignals_def Let_def t9_position t9_active t9_opponents
        boardTuning_def b o)
qed

lemma t9_signals:
  fixes c :: real and S :: solver
  defines "sg \<equiv> computeSignals S (tenNineBB c) (limpedPot c) []"
  shows "needToCall sg = 0" "spr sg = c / 60" "preflop sg" "strengthRatio sg = Num 0.6"
    "strength sg = Num 6" "canRaise sg = (c > 20)" "activeOpponents sg = 2"
    "positionFactor sg = 1"
proof -
  show "needToCall sg = 0"
    by (simp add: sg_def sg_needToCall needToCallOf_def tenNineBB_def limpedPot_def)
  show "spr sg = c / 60"
    by (simp add: sg_def sg_spr needToCallOf_def tenNineBB_def limpedPot_def)
  show "preflop sg" by (simp add: sg_def sg_preflop)
  show "strengthRatio sg = Num 0.6" by (simp add: sg_def sg_strengthRatio t9_strength)
  show "strength sg = Num 6" by (simp add: sg_def sg_strength t9_strength)
  show "canRaise sg = (c > 20)"
    by (simp add: sg_def sg_canRaise MAX_RAISES_PER_ROUND_def tenNineBB_def limpedPot_def)
  show "activeOpponents sg = 2"
    by (simp add: sg_def computeSignals_def Let_def t9_active)
  show "positionFactor sg = 1"
    by (simp add: sg_def computeSignals_def Let_def t9_position)
qed

lemma t9_value:
  assumes "c \<le> 30"
  shows "valueBetSize (tenNineBB c) (limpedPot c)
           (computeSignals S (tenNineBB c) (limpedPot c) []) (1 / 2) = roundTo10 c"
proof -
  note s = t9_signals[of S c]
  have "spr (computeSignals S (tenNineBB c) (limpedPot c) []) < 2" using assms s(2) by simp
  moreover have "chips (tenNineBB c) = c" "pot (limpedPot c) = 60"
    by (simp_all add: tenNineBB_def limpedPot_def)
  ultimately show ?thesis using assms
    by (simp add: valueBetSize_def Let_def s js_ge_def)
qed

lemma t9_30:
  "chooseBotAction S (tenNineBB 30) (limpedPot 30) [] coin = Raise 40"
proof -
  let ?P = "tenNineBB 30" and ?C = "limpedPot 30"
  let ?sg = "computeSignals S ?P ?C []"
  note s = t9_signals[of S 30]
  have r10: "roundTo10 30 = 30" by (simp add: roundTo10_def Math_round_def)
  have cl: "currentBet ?C + lastRaise ?C = 40" by (simp add: limpedPot_def)
  have sh: "shove ?P ?C ?sg = None"
    by (simp add: shove_def s js_ge_def)
  have rc: "Math_random coin = (1 / 2, coin)" by (simp add: Math_random_def coin_def)
  have tie: "\<not> strengthTie ?sg"
    by (simp add: strengthTie_def s t9_tune STRENGTH_TIE_DELTA_def)
  have br: "branchDecision ?P ?C ?sg coin = (Raise 40, coin)"
    by (simp add: branchDecision_def s t9_tune js_ge_def rc tie t9_value r10 cl)
  have s3: "decisionAfterBluff ?P ?C ?sg coin = (Raise 40, coin)"
    by (simp add: decisionAfterBluff_def mainDecision_def sh br allInDefense_Raise
        bluffInjection_Raise)
  have "decisionBeforeMinRaise ?P ?C ?sg coin = Raise 40"
    by (simp add: decisionBeforeMinRaise_def s3 overbetUpsize_preflop slowPlay_preflop
        protectBet_Raise s)
  then show ?thesis
    by (simp add: chooseBotAction_def Let_def ensureMinRaise_def s) (simp add: limpedPot_def)
qed

lemma t9_25:
  "valueBetSize (tenNineBB 25) (limpedPot 25)
     (computeSignals S (tenNineBB 25) (limpedPot 25) []) (1 / 2) = 30"
  by (simp add: t9_value roundTo10_def Math_round_def)

text \<open>
  C2. The claim: no raise is returned above the stack. The code at the failing input: the
  big blind with a stack of 30 raises 40, the minimum raise, which is not capped at the
  stack. (With a stack of 25 the value bet itself is 30: the rounding to 10 comes after
  the cap.)
\<close>

theorem raise_above_stack:
  "chips (tenNineBB 30) = 30
   \<and> chooseBotAction highCardSolver (tenNineBB 30) (limpedPot 30) [] coin = Raise 40
   \<and> chips (tenNineBB 25) = 25
   \<and> valueBetSize (tenNineBB 25) (limpedPot 25)
        (computeSignals highCardSolver (tenNineBB 25) (limpedPot 25) []) (1 / 2) = 30"
  using t9_30[of highCardSolver] t9_25[of highCardSolver] by (simp add: tenNineBB_def)

section \<open>Straight draws\<close>

lemma straights_list:
  "straights = [[1,2,3,4,5],[2,3,4,5,6],[3,4,5,6,7],[4,5,6,7,8],[5,6,7,8,9],[6,7,8,9,10],
     [7,8,9,10,11],[8,9,10,11,12],[9,10,11,12,13],[10,11,12,13,14]]"
  by (simp add: straights_def upto.simps)

lemma low_ranks:
  "drawRanks highCardSolver (fst lowHole # snd lowHole # lowBoard) = [3, 4, 5, 6, 7]"
  by (simp add: drawRanks_def lowHole_def lowBoard_def highCardSolver_def specRank_def
      rankMap_def Let_def)

text \<open>
  C5. The claim: a made straight suppresses the straight draw. The code at the failing
  input: with 3, 4 in hand and 5, 6, 7 on the board the window 3 to 7 is complete, but
  the loop stops at the window 2 to 6, which holds four ranks, and reports a draw.
\<close>

theorem straight_draw_on_made_straight:
  "straightDraw (analyzeDrawPotential highCardSolver lowHole lowBoard)
   \<and> list_ex (\<lambda>seq. windowCount
          (drawRanks highCardSolver (fst lowHole # snd lowHole # lowBoard)) seq = 5) straights
   \<and> \<not> straightDrawSpec highCardSolver lowHole lowBoard"
  by (simp add: analyzeDrawPotential_def straightDrawSpec_def Let_def low_ranks straights_list
      windowCount_def)

section \<open>The action queue in order\<close>


























end
